theory Spec2Isabelle
  imports Complex_Main
begin

text \<open>
  A shallow embedding of the selectable collection and of the Masonry component of the
  Coral toolkit: the selection queries of \<open>SelectableCollection\<close>, and of \<open>Masonry\<close> the
  selection validator with its change events, the setter of the layout name, the layout
  scheduler and the handlers that order items by drag and drop. Both classes stand in
  the source file \<open>coralui-component-list/src/scripts/ButtonList.js\<close>, after the class
  \<open>ButtonList\<close>. The definitions follow the source function by function and keep its
  names without the leading underscore; the properties proved of them come after all the
  definitions.
\<close>

section \<open>The rendering surface: elements and the children of a host\<close>

text \<open>
  The component works on DOM elements through references. A reference is a \<open>node\<close>; what
  an element carries (its lower-cased tag name and the names of its attributes) is read
  from a store, so that two references to one element see the same attributes. The
  children of the host are the list of its child elements in document order. Only the
  names of attributes matter to the code below (\<open>hasAttribute\<close>, \<open>removeAttribute\<close>,
  \<open>setAttribute(name, '')\<close>), so the attribute values are left out.

  The item selector of a Masonry is scoped to the direct children of the host
  (\<open>:scope > coral-masonry-item...\<close>), so \<open>querySelectorAll\<close> on the host ranges over
  \<open>children\<close>.
\<close>

type_synonym node = nat

record element =
  localName :: string
  attributes :: "string set"

record dom =
  children :: "node list"
  elem :: "node \<Rightarrow> element"

definition hasAttribute :: "'a dom_scheme \<Rightarrow> node \<Rightarrow> string \<Rightarrow> bool" where
  "hasAttribute h n a = (a \<in> attributes (elem h n))"

definition removeAttribute :: "'a dom_scheme \<Rightarrow> node \<Rightarrow> string \<Rightarrow> 'a dom_scheme" where
  "removeAttribute h n a =
     h\<lparr>elem := (elem h)(n := (elem h n)\<lparr>attributes := attributes (elem h n) - {a}\<rparr>)\<rparr>"

definition setAttribute :: "'a dom_scheme \<Rightarrow> node \<Rightarrow> string \<Rightarrow> 'a dom_scheme" where
  "setAttribute h n a =
     h\<lparr>elem := (elem h)(n := (elem h n)\<lparr>attributes := insert a (attributes (elem h n))\<rparr>)\<rparr>"

subsection \<open>Selectors\<close>

text \<open>
  A selector is a comma-separated list of compound selectors; an element matches when it
  matches one of them. \<open>SelectableCollection\<close> builds its selectors by appending
  \<open>:not([disabled])\<close> or \<open>[selected]\<close> to every part of \<open>_allItemsSelector\<close>, and later
  swaps the attribute with \<open>selector.replace('[selected]', '[attr]')\<close>, which rewrites the
  first occurrence only. A part of an attribute selector is therefore kept as the pair of
  its base and the attribute name that was appended to it.
\<close>

type_synonym compound = "element \<Rightarrow> bool"

type_synonym attr_selector = "(compound \<times> string) list"

definition matchesSel :: "compound list \<Rightarrow> element \<Rightarrow> bool" where
  "matchesSel sel e = list_ex (\<lambda>c. c e) sel"

definition matchesAttrSel :: "attr_selector \<Rightarrow> element \<Rightarrow> bool" where
  "matchesAttrSel sel e = list_ex (\<lambda>(c, a). c e \<and> a \<in> attributes e) sel"

definition querySelectorAll :: "'a dom_scheme \<Rightarrow> (element \<Rightarrow> bool) \<Rightarrow> node list" where
  "querySelectorAll h m = filter (\<lambda>n. m (elem h n)) (children h)"

text \<open>\<open>selector.replace('[selected]', `[${attr}]`)\<close>: the first \<open>[selected]\<close> of the
  selector text is the one appended to its first part (the item selectors themselves do
  not mention \<open>[selected]\<close>).\<close>

fun replaceSelected :: "attr_selector \<Rightarrow> string \<Rightarrow> attr_selector" where
  "replaceSelected [] a = []"
| "replaceSelected ((c, m) # rest) a =
     (if m = ''selected'' then (c, a) # rest else (c, m) # replaceSelected rest a)"

section \<open>SelectableCollection\<close>

record selectable_collection =
  allItemsSelector :: "compound list"
  selectableItemSelector :: "compound list"
  selectedItemSelector :: attr_selector
  deselectAllExceptSelector :: attr_selector

text \<open>The constructor. \<open>_allItemsSelector\<close> is set by the base class \<open>Collection\<close> from
  the \<open>itemSelector\<close> option and is taken as the argument here.\<close>

definition SelectableCollection :: "compound list \<Rightarrow> selectable_collection" where
  "SelectableCollection allItems =
     \<lparr>allItemsSelector = allItems,
      selectableItemSelector = map (\<lambda>c e. c e \<and> ''disabled'' \<notin> attributes e) allItems,
      selectedItemSelector = map (\<lambda>c. (c, ''selected'')) allItems,
      deselectAllExceptSelector = map (\<lambda>c. (c, ''selected'')) allItems\<rparr>"

definition isSelectable :: "selectable_collection \<Rightarrow> 'a dom_scheme \<Rightarrow> node \<Rightarrow> bool" where
  "isSelectable c h n = matchesSel (selectableItemSelector c) (elem h n)"

text \<open>
  The elements reached from \<open>item\<close> by following \<open>previousElementSibling\<close>, nearest first,
  and those reached by following \<open>nextElementSibling\<close>. An element that is not a child of
  the host has no siblings here.
\<close>

definition previousElementSiblings :: "node list \<Rightarrow> node \<Rightarrow> node list" where
  "previousElementSiblings cs item =
     (if item \<in> set cs then rev (takeWhile (\<lambda>x. x \<noteq> item) cs) else [])"

definition nextElementSiblings :: "node list \<Rightarrow> node \<Rightarrow> node list" where
  "nextElementSiblings cs item = tl (dropWhile (\<lambda>x. x \<noteq> item) cs)"

text \<open>The loop \<open>while (sibling) { if (sibling.matches(...)) break; else sibling = ... }\<close>,
  run along the chain of siblings; its value is the final \<open>sibling\<close> (\<open>None\<close> is null).\<close>

fun siblingLoop :: "(node \<Rightarrow> bool) \<Rightarrow> node list \<Rightarrow> node option" where
  "siblingLoop m [] = None"
| "siblingLoop m (sibling # rest) = (if m sibling then Some sibling else siblingLoop m rest)"

text \<open>\<open>sibling || item\<close>\<close>

definition orItem :: "node option \<Rightarrow> node \<Rightarrow> node option" where
  "orItem sibling item = (case sibling of Some s \<Rightarrow> Some s | None \<Rightarrow> Some item)"

definition getPreviousSelectable ::
  "selectable_collection \<Rightarrow> 'a dom_scheme \<Rightarrow> node \<Rightarrow> node option" where
  "getPreviousSelectable c h item =
     orItem (siblingLoop (isSelectable c h) (previousElementSiblings (children h) item)) item"

definition getNextSelectable ::
  "selectable_collection \<Rightarrow> 'a dom_scheme \<Rightarrow> node \<Rightarrow> node option" where
  "getNextSelectable c h item =
     orItem (siblingLoop (isSelectable c h) (nextElementSiblings (children h) item)) item"

text \<open>The selector of the selection queries, for the optional \<open>selectedAttribute\<close>
  (\<open>None\<close> is \<open>undefined\<close>). An attribute name, here and below, is a name that can
  stand in an attribute selector.\<close>

definition selectedSelector :: "selectable_collection \<Rightarrow> string option \<Rightarrow> attr_selector" where
  "selectedSelector c selectedAttribute =
     (case selectedAttribute of
        None \<Rightarrow> selectedItemSelector c
      | Some a \<Rightarrow> replaceSelected (selectedItemSelector c) a)"

definition getAllSelected ::
  "selectable_collection \<Rightarrow> 'a dom_scheme \<Rightarrow> string option \<Rightarrow> node list" where
  "getAllSelected c h selectedAttribute =
     querySelectorAll h (matchesAttrSel (selectedSelector c selectedAttribute))"

text \<open>
  \<open>_deselectAllExcept(itemOrSelectedAttribute, selectedAttribute)\<close>. The first argument
  is a string (the attribute) or an item, which may be missing; the second is a string or
  missing. The three values the function computes before its loop are the item to keep,
  the attribute to remove and the selector of the query.
\<close>

datatype item_or_attribute = Attribute string | Item "node option"

definition orSelected :: "string \<Rightarrow> string" where
  "orSelected a = (if a = [] then ''selected'' else a)"

fun deselectAllExceptArgs ::
  "selectable_collection \<Rightarrow> item_or_attribute \<Rightarrow> string option \<Rightarrow>
     node option \<times> string \<times> attr_selector" where
  "deselectAllExceptArgs c (Attribute a) selectedAttribute =
     (None, orSelected a, replaceSelected (deselectAllExceptSelector c) (orSelected a))"
| "deselectAllExceptArgs c (Item item) None =
     (item, ''selected'', deselectAllExceptSelector c)"
| "deselectAllExceptArgs c (Item item) (Some a) =
     (item, orSelected a, replaceSelected (deselectAllExceptSelector c) (orSelected a))"

text \<open>The loop over the items found by the query: the attribute is removed from each
  one that is not the item to keep.\<close>

fun deselectLoop :: "'a dom_scheme \<Rightarrow> node option \<Rightarrow> string \<Rightarrow> node list \<Rightarrow> 'a dom_scheme" where
  "deselectLoop h item attributeToRemove [] = h"
| "deselectLoop h item attributeToRemove (x # items) =
     deselectLoop (if item \<noteq> Some x then removeAttribute h x attributeToRemove else h)
       item attributeToRemove items"

definition deselectAllExcept ::
  "selectable_collection \<Rightarrow> 'a dom_scheme \<Rightarrow> item_or_attribute \<Rightarrow> string option \<Rightarrow>
     'a dom_scheme" where
  "deselectAllExcept c h itemOrSelectedAttribute selectedAttribute =
     (case deselectAllExceptArgs c itemOrSelectedAttribute selectedAttribute of
        (item, attributeToRemove, selector) \<Rightarrow>
          deselectLoop h item attributeToRemove (querySelectorAll h (matchesAttrSel selector)))"

section \<open>Masonry: selection\<close>

text \<open>
  The item selector given to the collection by the \<open>items\<close> getter,
  \<open>:scope > coral-masonry-item:not([_removing]):not([_placeholder])\<close>; the scope is the
  host, whose children the queries range over.
\<close>

definition masonryItemSelector :: compound where
  "masonryItemSelector e =
     (localName e = ''coral-masonry-item'' \<and> ''_removing'' \<notin> attributes e \<and>
      ''_placeholder'' \<notin> attributes e)"

definition items :: selectable_collection where
  "items = SelectableCollection [masonryItemSelector]"

datatype selectionMode = NONE | SINGLE | MULTIPLE

text \<open>The detail of a \<open>coral-masonry:change\<close> event. A field holds an item or null
  (\<open>Scalar\<close>) or an array of items (\<open>Items\<close>).\<close>

datatype payload = Scalar "node option" | Items "node list"

record change_event =
  detail_oldSelection :: payload
  detail_selection :: payload

text \<open>
  The part of a Masonry that selection reads and writes: the host's elements, the value
  of the \<open>selectionMode\<close> getter, \<open>_preventTriggeringEvents\<close> (initially undefined, which
  is false), \<open>_oldSelection\<close>, and the \<open>coral-masonry:change\<close> events triggered so far.
\<close>

record masonry = dom +
  selectionMode :: selectionMode
  preventTriggeringEvents :: bool
  oldSelection :: "node list"
  triggered :: "change_event list"

definition selectedItems :: "masonry \<Rightarrow> node list" where
  "selectedItems s = getAllSelected items s None"

text \<open>\<open>xs[0] || null\<close> and \<open>xs[xs.length - 1]\<close>\<close>

definition firstOrNull :: "node list \<Rightarrow> node option" where
  "firstOrNull xs = (case xs of [] \<Rightarrow> None | x # _ \<Rightarrow> Some x)"

definition lastOrUndefined :: "node list \<Rightarrow> node option" where
  "lastOrUndefined xs = (case xs of [] \<Rightarrow> None | x # ys \<Rightarrow> Some (last (x # ys)))"

definition arraysAreDifferent :: "node list \<Rightarrow> node list \<Rightarrow> bool" where
  "arraysAreDifferent sel oldSel =
     (let diff = (if length oldSel = length sel
                  then filter (\<lambda>item. item \<notin> set sel) oldSel else [])
      in length oldSel \<noteq> length sel \<or> length diff \<noteq> 0)"

definition triggerChangeEvent :: "masonry \<Rightarrow> masonry" where
  "triggerChangeEvent s =
     (let selItems = selectedItems s; oldSel = oldSelection s in
      if \<not> preventTriggeringEvents s \<and> arraysAreDifferent selItems oldSel
      then s\<lparr>triggered := triggered s @
                [if selectionMode s = MULTIPLE
                 then \<lparr>detail_oldSelection = Items oldSel, detail_selection = Items selItems\<rparr>
                 else \<lparr>detail_oldSelection =
                         (if length oldSel > 1 then Items oldSel else Scalar (firstOrNull oldSel)),
                       detail_selection = Scalar (firstOrNull selItems)\<rparr>],
              oldSelection := selItems\<rparr>
      else s)"

text \<open>The two \<open>forEach\<close> loops of \<open>_validateSelection\<close> over the selected items found at
  its start.\<close>

fun forEachNone :: "masonry \<Rightarrow> node list \<Rightarrow> masonry" where
  "forEachNone s [] = s"
| "forEachNone s (selItem # rest) =
     forEachNone (removeAttribute (s\<lparr>preventTriggeringEvents := True\<rparr>) selItem ''selected'')
       rest"

fun forEachSingle :: "masonry \<Rightarrow> node \<Rightarrow> node list \<Rightarrow> masonry" where
  "forEachSingle s item [] = s"
| "forEachSingle s item (selItem # rest) =
     forEachSingle
       (if selItem \<noteq> item
        then removeAttribute (s\<lparr>preventTriggeringEvents := True\<rparr>) selItem ''selected''
        else s)
       item rest"

definition validateSelection :: "masonry \<Rightarrow> node option \<Rightarrow> masonry" where
  "validateSelection s item0 =
     (let selItems = selectedItems s in
      triggerChangeEvent
        (if selectionMode s = NONE then forEachNone s selItems
         else if selectionMode s = SINGLE then
           (case (case item0 of Some i \<Rightarrow> Some i | None \<Rightarrow> lastOrUndefined selItems) of
              None \<Rightarrow> s
            | Some item \<Rightarrow>
                if hasAttribute s item ''selected'' \<and> length selItems > 1
                then (forEachSingle s item selItems)\<lparr>preventTriggeringEvents := False\<rparr>
                else s)
         else s))"

text \<open>Whether a run of the validator takes the branch of mode \<open>single\<close> that clears the
  other items and sets \<open>_preventTriggeringEvents\<close> back to false.\<close>

definition normalizesSingle :: "masonry \<Rightarrow> node option \<Rightarrow> bool" where
  "normalizesSingle s item0 =
     (selectionMode s = SINGLE \<and> length (selectedItems s) > 1 \<and>
      (case (case item0 of Some i \<Rightarrow> Some i | None \<Rightarrow> lastOrUndefined (selectedItems s)) of
         None \<Rightarrow> False
       | Some item \<Rightarrow> hasAttribute s item ''selected''))"

definition onItemSelectedChanged :: "masonry \<Rightarrow> node \<Rightarrow> masonry" where
  "onItemSelectedChanged s target = validateSelection s (Some target)"

text \<open>The setter of \<open>selectionMode\<close>, for a value that \<open>transform\<close> and \<open>validate\<close> have
  already turned into one of the three modes; the class and ARIA attributes it sets on the
  host are not part of the state here.\<close>

definition setSelectionMode :: "masonry \<Rightarrow> selectionMode \<Rightarrow> masonry" where
  "setSelectionMode s m = validateSelection (s\<lparr>selectionMode := m\<rparr>) None"

text \<open>\<open>_onItemClick\<close>: the write to the \<open>selected\<close> attribute of the clicked item.\<close>

definition onItemClick :: "masonry \<Rightarrow> node \<Rightarrow> masonry" where
  "onItemClick s item =
     (if selectionMode s \<noteq> NONE
      then (if hasAttribute s item ''selected'' then removeAttribute s item ''selected''
            else setAttribute s item ''selected'')
      else s)"

text \<open>A change of the selection: a click on an item, a write of the \<open>selected\<close>
  attribute of an item by a program, or a new selection mode.\<close>

datatype selection_change =
    Click node
  | SetSelected node bool
  | SetSelectionMode selectionMode

text \<open>
  Modelled from the spec: \<open>MasonryItem\<close>, which raises
  \<open>coral-masonry-item:_selectedchanged\<close> when its \<open>selected\<close> attribute is written, is not
  among the sources. The spec has the validator run "after every selection-affecting
  mutation (click, programmatic attribute change ...)", so a selection change is the
  write followed by \<open>_onItemSelectedChanged\<close> for the written item. A click in mode
  \<open>none\<close> writes nothing and raises nothing. The writes that the validator itself makes
  in its loops raise the event as well; the runs of the validator nested there find
  \<open>_preventTriggeringEvents\<close> set and the written item unselected, so they trigger
  nothing and clear nothing that the loop around them does not clear, and they are left
  out of \<open>forEachNone\<close> and \<open>forEachSingle\<close>.
\<close>

fun selectionStep :: "masonry \<Rightarrow> selection_change \<Rightarrow> masonry" where
  "selectionStep s (Click item) =
     (if selectionMode s \<noteq> NONE then onItemSelectedChanged (onItemClick s item) item else s)"
| "selectionStep s (SetSelected item b) =
     onItemSelectedChanged
       (if b then setAttribute s item ''selected'' else removeAttribute s item ''selected'') item"
| "selectionStep s (SetSelectionMode m) = setSelectionMode s m"

fun selectionRun :: "masonry \<Rightarrow> selection_change list \<Rightarrow> masonry" where
  "selectionRun s [] = s"
| "selectionRun s (ev # evs) = selectionRun (selectionStep s ev) evs"

text \<open>The validator call of a selection change takes the normalising branch of mode
  \<open>single\<close>.\<close>

fun stepNormalizes :: "masonry \<Rightarrow> selection_change \<Rightarrow> bool" where
  "stepNormalizes s (Click item) =
     (selectionMode s \<noteq> NONE \<and> normalizesSingle (onItemClick s item) (Some item))"
| "stepNormalizes s (SetSelected item b) =
     normalizesSingle
       (if b then setAttribute s item ''selected'' else removeAttribute s item ''selected'')
       (Some item)"
| "stepNormalizes s (SetSelectionMode m) = normalizesSingle (s\<lparr>selectionMode := m\<rparr>) None"

fun runNormalizes :: "masonry \<Rightarrow> selection_change list \<Rightarrow> bool" where
  "runNormalizes s [] = False"
| "runNormalizes s (ev # evs) = (stepNormalizes s ev \<or> runNormalizes (selectionStep s ev) evs)"

text \<open>The constraint of the selection mode on the selection.\<close>

definition modeConstraint :: "masonry \<Rightarrow> bool" where
  "modeConstraint s =
     (case selectionMode s of
        NONE \<Rightarrow> selectedItems s = []
      | SINGLE \<Rightarrow> length (selectedItems s) \<le> 1
      | MULTIPLE \<Rightarrow> True)"







section \<open>Masonry: the layout name and the layout scheduler\<close>

text \<open>
  \<open>Masonry._layouts\<close> is a plain object (\<open>{}\<close>) to which \<open>registerLayout\<close> adds the
  layout classes under their names. It is kept as the list of the registered names in the
  order of their registration, which is the order of \<open>Object.keys\<close> for names that are
  not array indices. A property read \<open>layoutEnum[value]\<close> on a plain object also finds
  the properties that every object inherits from \<open>Object.prototype\<close>, all of them truthy.
\<close>

definition objectPrototypeKeys :: "string list" where
  "objectPrototypeKeys =
     [''constructor'', ''__proto__'', ''hasOwnProperty'', ''isPrototypeOf'',
      ''propertyIsEnumerable'', ''toLocaleString'', ''toString'', ''valueOf'',
      ''__defineGetter__'', ''__defineSetter__'', ''__lookupGetter__'', ''__lookupSetter__'']"

text \<open>A property key is a string; \<open>undefined\<close> as a key reads the property
  \<open>"undefined"\<close>.\<close>

definition propertyKey :: "string option \<Rightarrow> string" where
  "propertyKey v = (case v of None \<Rightarrow> ''undefined'' | Some k \<Rightarrow> k)"

text \<open>Whether \<open>layoutEnum[value]\<close> is truthy.\<close>

definition layoutEnumHas :: "string list \<Rightarrow> string option \<Rightarrow> bool" where
  "layoutEnumHas layoutEnum v =
     (propertyKey v \<in> set layoutEnum \<or> propertyKey v \<in> set objectPrototypeKeys)"

text \<open>
  The part of a Masonry that the layout code reads and writes: the registry, \<open>_layout\<close>
  (\<open>None\<close> is undefined), the flags of the constructor, the name of the layout of
  \<open>_layoutInstance\<close>, whether the host has an \<open>offsetParent\<close>, the number of callbacks
  that \<open>_scheduleLayout\<close> has handed to \<open>requestAnimationFrame\<close> and that have not run
  yet, and the messages given to \<open>commons._log\<close>. Two counters observe the run: the calls
  of \<open>_doLayout\<close> and the calls of \<open>_layoutInstance.layout()\<close>, the layout passes.
\<close>

record scheduler =
  layouts :: "string list"
  layoutName :: "string option"
  layoutScheduled :: bool
  forceDebounce :: bool
  layouted :: bool
  layoutInstance :: "string option"
  offsetParent :: bool
  frameCallbacks :: nat
  logged :: "string list"
  doLayoutCalls :: nat
  layoutPasses :: nat

text \<open>The getter of \<open>layout\<close>: \<open>this._layout || layouts.FIXED_CENTERED\<close>.\<close>

definition layoutGetter :: "scheduler \<Rightarrow> string" where
  "layoutGetter s =
     (case layoutName s of
        None \<Rightarrow> ''fixed-centered''
      | Some v \<Rightarrow> if v = [] then ''fixed-centered'' else v)"

text \<open>An uncaught exception ends a run of the model: \<open>Inl\<close> carries the exception and
  no state.\<close>

datatype js_error = TypeError | NotFoundError

text \<open>
  \<open>_doLayout\<close>, as far as the scheduling state goes: its guard, the layout instance, the
  call of the strategy and \<open>_layouted\<close>. The transitions of new items and the tabbable
  and focused items that follow in the source do not touch these fields. A value that
  the registry only inherits passes the guard but is no layout class: \<open>new
  LayoutClass(this)\<close> throws a \<open>TypeError\<close> for all of them but \<open>Object\<close>, which returns
  the Masonry itself, and then \<open>this._layoutInstance.layout()\<close> throws it.
\<close>

definition doLayout :: "scheduler \<Rightarrow> js_error + scheduler" where
  "doLayout s0 =
     (let s = s0\<lparr>doLayoutCalls := Suc (doLayoutCalls s0)\<rparr> in
      if forceDebounce s \<or> \<not> layoutEnumHas (layouts s) (Some (layoutGetter s)) \<or>
         \<not> offsetParent s
      then Inr s
      else if layoutGetter s \<in> set (layouts s)
      then Inr (s\<lparr>layoutInstance := Some (layoutGetter s),
                  layoutPasses := Suc (layoutPasses s),
                  layouted := True\<rparr>)
      else Inl TypeError)"

definition scheduleLayout :: "scheduler \<Rightarrow> scheduler" where
  "scheduleLayout s =
     (if \<not> forceDebounce s \<and> \<not> layoutScheduled s
      then s\<lparr>frameCallbacks := Suc (frameCallbacks s), layoutScheduled := True\<rparr>
      else s)"

text \<open>The callback that \<open>_scheduleLayout\<close> registers.\<close>

definition frameCallback :: "scheduler \<Rightarrow> js_error + scheduler" where
  "frameCallback s =
     (if layoutScheduled s
      then (case doLayout s of
              Inl err \<Rightarrow> Inl err
            | Inr s' \<Rightarrow> Inr (s'\<lparr>layoutScheduled := False\<rparr>))
      else Inr s)"

text \<open>\<open>N\<close> calls of \<open>_scheduleLayout\<close>, and the next animation frame, which runs the
  callbacks registered before it.\<close>

fun signals :: "nat \<Rightarrow> scheduler \<Rightarrow> scheduler" where
  "signals 0 s = s"
| "signals (Suc n) s = signals n (scheduleLayout s)"

fun runCallbacks :: "nat \<Rightarrow> scheduler \<Rightarrow> js_error + scheduler" where
  "runCallbacks 0 s = Inr s"
| "runCallbacks (Suc n) s =
     (case frameCallback s of Inl err \<Rightarrow> Inl err | Inr s' \<Rightarrow> runCallbacks n s')"

definition animationFrame :: "scheduler \<Rightarrow> js_error + scheduler" where
  "animationFrame s = runCallbacks (frameCallbacks s) (s\<lparr>frameCallbacks := 0\<rparr>)"

text \<open>The setter of \<open>layout\<close>, for the string that \<open>transform.string\<close> returns.
  \<open>Object.keys(layoutEnum)[0]\<close> is undefined for an empty registry.\<close>

definition setLayout :: "scheduler \<Rightarrow> string \<Rightarrow> scheduler" where
  "setLayout s value0 =
     (let v = (if value0 = [] then (case layouts s of [] \<Rightarrow> None | k # _ \<Rightarrow> Some k)
               else Some value0)
      in if v \<noteq> layoutName s
         then (if layoutEnumHas (layouts s) v
               then scheduleLayout (s\<lparr>layoutName := v\<rparr>)
               else s\<lparr>logged := logged s @ [''Coral.Masonry: Unknown layout: '' @ propertyKey v]\<rparr>)
         else s)"

section \<open>Masonry: ordering items by drag and drop\<close>

subsection \<open>Numbers\<close>

text \<open>
  The numbers of the source are IEEE doubles: a real number that the format holds, one of
  the two infinities, or NaN (the two zeros are one value here; the handlers divide by
  offset sizes and by 2 only). The arithmetic on doubles rounds, and \<open>Math.pow\<close> and
  \<open>Math.sqrt\<close> answer approximations that the engine chooses. What the operations answer
  is therefore not computed here: it is taken from the engine, as a record of the five
  operations that the drag handlers use, and the properties below hold for every such
  record. The comparison \<open><=\<close> is exact; it is false when either side is NaN.
\<close>

datatype double = Finite real | PosInfinity | NegInfinity | NaN

record float_ops =
  float_sub :: "double \<Rightarrow> double \<Rightarrow> double"
  float_add :: "double \<Rightarrow> double \<Rightarrow> double"
  float_div :: "double \<Rightarrow> double \<Rightarrow> double"
  math_pow :: "double \<Rightarrow> double \<Rightarrow> double"
  math_sqrt :: "double \<Rightarrow> double"

text \<open>\<open>x <= y\<close>\<close>

fun double_le :: "double \<Rightarrow> double \<Rightarrow> bool" where
  "double_le (Finite a) (Finite b) = (a \<le> b)"
| "double_le (Finite a) PosInfinity = True"
| "double_le NegInfinity (Finite b) = True"
| "double_le NegInfinity NegInfinity = True"
| "double_le NegInfinity PosInfinity = True"
| "double_le PosInfinity PosInfinity = True"
| "double_le x y = False"

text \<open>\<open>x < y\<close>. The source does not use it; the properties below say with it what the
  failure of \<open><=\<close> means for two numbers.\<close>

fun double_less :: "double \<Rightarrow> double \<Rightarrow> bool" where
  "double_less (Finite a) (Finite b) = (a < b)"
| "double_less (Finite a) PosInfinity = True"
| "double_less NegInfinity (Finite b) = True"
| "double_less NegInfinity PosInfinity = True"
| "double_less x y = False"

subsection \<open>The state of a drag\<close>

record position =
  pos_left :: double
  pos_top :: double

record drag_event =
  target :: node
  matchedTarget :: node

text \<open>The detail of a \<open>coral-masonry:order\<close> event.\<close>

record order_event =
  detail_item :: node
  detail_oldBefore :: "node option"
  detail_before :: "node option"

text \<open>
  The part of a Masonry that the drag handlers read and write: the host's elements, the
  properties \<open>_oldBefore\<close>, \<open>_dropPlaceholder\<close>, \<open>_prevDragPos\<close> and \<open>_dropping\<close> of each
  item (\<open>None\<close> is undefined or null), the \<open>coral-masonry:order\<close> events triggered so far,
  and what the surroundings answer while a handler runs:

  \<^item> the engine: its arithmetic on doubles;
  \<^item> the rendering surface: the bounding rectangles of the host and of the elements, and
    the offset sizes, which are integers;
  \<^item> the layout strategy: which children its hit test \<open>itemAt\<close> takes to cover a point;
  \<^item> the document around the children of the host, for an element that is not a child of
    the host (an item nested deeper, or a placeholder that was never inserted): its
    previous element sibling, and whether \<open>compareDocumentPosition\<close> reports an element as
    preceding it. For two nodes that are not in one tree that answer is left to the
    implementation by the DOM standard.

  The handlers call \<open>_layoutInstance.detach\<close>, \<open>itemAt\<close> and \<open>reattach\<close>; they run after a
  layout pass has created the layout instance.
\<close>

record drag = dom +
  oldBefore :: "node \<Rightarrow> node option"
  dropPlaceholder :: "node \<Rightarrow> node option"
  prevDragPos :: "node \<Rightarrow> position option"
  dropping :: "node \<Rightarrow> bool"
  orderEvents :: "order_event list"
  floats :: float_ops
  hostRect :: position
  boundingClientRect :: "node \<Rightarrow> position"
  offsetWidth :: "node \<Rightarrow> int"
  offsetHeight :: "node \<Rightarrow> int"
  itemCovers :: "node \<Rightarrow> double \<Rightarrow> double \<Rightarrow> bool"
  previousSiblingElsewhere :: "node \<Rightarrow> node option"
  precedingElsewhere :: "node \<Rightarrow> node \<Rightarrow> bool"

text \<open>A handler returns, or it throws and leaves the state as it was at the throw.\<close>

datatype 'a outcome = Returns 'a | Throws js_error 'a

fun stateOf :: "'a outcome \<Rightarrow> 'a" where
  "stateOf (Returns s) = s"
| "stateOf (Throws err s) = s"

fun thrown :: "'a outcome \<Rightarrow> js_error option" where
  "thrown (Returns s) = None"
| "thrown (Throws err s) = Some err"

subsection \<open>Siblings and distances\<close>

definition itemFilter :: "'a dom_scheme \<Rightarrow> node option \<Rightarrow> bool" where
  "itemFilter h element =
     (case element of
        None \<Rightarrow> False
      | Some n \<Rightarrow> localName (elem h n) = ''coral-masonry-item'' \<and> \<not> hasAttribute h n ''_removing'')"

text \<open>\<open>n.previousElementSibling\<close> and \<open>n.nextElementSibling\<close> of a child of the host.\<close>

definition previousElementSibling :: "node list \<Rightarrow> node \<Rightarrow> node option" where
  "previousElementSibling cs n =
     (case previousElementSiblings cs n of [] \<Rightarrow> None | x # _ \<Rightarrow> Some x)"

definition nextElementSibling :: "node list \<Rightarrow> node \<Rightarrow> node option" where
  "nextElementSibling cs n =
     (case nextElementSiblings cs n of [] \<Rightarrow> None | x # _ \<Rightarrow> Some x)"

text \<open>\<open>n.previousElementSibling\<close> of any element: among the children of the host for a
  child, and what the document answers for another element.\<close>

definition previousElementSiblingOf :: "drag \<Rightarrow> node \<Rightarrow> node option" where
  "previousElementSiblingOf s n =
     (if n \<in> set (children s) then previousElementSibling (children s) n
      else previousSiblingElsewhere s n)"

definition getPreviousItem :: "drag \<Rightarrow> node \<Rightarrow> node option" where
  "getPreviousItem s item =
     (let previousItem = previousElementSiblingOf s item
      in if itemFilter s previousItem then previousItem else None)"

text \<open>\<open>relativePosition(this, el2)\<close>\<close>

definition relativePosition :: "drag \<Rightarrow> node \<Rightarrow> position" where
  "relativePosition s el2 =
     \<lparr>pos_left = float_sub (floats s) (pos_left (boundingClientRect s el2)) (pos_left (hostRect s)),
      pos_top = float_sub (floats s) (pos_top (boundingClientRect s el2)) (pos_top (hostRect s))\<rparr>"

text \<open>\<open>Math.sqrt(Math.pow((x2 - x1) / unitWidth, 2) + Math.pow((y2 - y1) / unitHeight, 2))\<close>\<close>

definition weightedDistance ::
  "float_ops \<Rightarrow> double \<Rightarrow> double \<Rightarrow> double \<Rightarrow> double \<Rightarrow> double \<Rightarrow> double \<Rightarrow> double" where
  "weightedDistance f x1 y1 x2 y2 unitWidth unitHeight =
     math_sqrt f
       (float_add f
          (math_pow f (float_div f (float_sub f x2 x1) unitWidth) (Finite 2))
          (math_pow f (float_div f (float_sub f y2 y1) unitHeight) (Finite 2)))"

text \<open>The weighted distance of a position from the centre of the placeholder, as
  \<open>_isApproachingPlaceholder\<close> computes it for \<open>pos\<close> and for \<open>prevPos\<close>.\<close>

definition placeholderDistance :: "drag \<Rightarrow> node \<Rightarrow> position \<Rightarrow> double" where
  "placeholderDistance s placeholder p =
     (let placeholderPos = relativePosition s placeholder;
          placeholderWidth = Finite (real_of_int (offsetWidth s placeholder));
          placeholderHeight = Finite (real_of_int (offsetHeight s placeholder));
          placeholderX =
            float_add (floats s) (pos_left placeholderPos)
              (float_div (floats s) placeholderWidth (Finite 2));
          placeholderY =
            float_add (floats s) (pos_top placeholderPos)
              (float_div (floats s) placeholderHeight (Finite 2))
      in weightedDistance (floats s) placeholderX placeholderY (pos_left p) (pos_top p)
           placeholderWidth placeholderHeight)"

definition isApproachingPlaceholder :: "drag \<Rightarrow> position \<Rightarrow> position \<Rightarrow> node \<Rightarrow> bool" where
  "isApproachingPlaceholder s pos prevPos placeholder =
     double_le (placeholderDistance s placeholder pos) (placeholderDistance s placeholder prevPos)"

subsection \<open>Moving the placeholder\<close>

text \<open>
  \<open>parent.insertBefore(node, reference)\<close> on the children of the parent: the node leaves
  its place and goes before the reference, or to the end for a null reference. The
  reference is a child other than the node.
\<close>

definition insertBefore :: "node list \<Rightarrow> node \<Rightarrow> node option \<Rightarrow> node list" where
  "insertBefore cs newNode reference =
     (let rest = removeAll newNode cs in
      case reference of
        None \<Rightarrow> rest @ [newNode]
      | Some r \<Rightarrow> takeWhile (\<lambda>x. x \<noteq> r) rest @ newNode # dropWhile (\<lambda>x. x \<noteq> r) rest)"

text \<open>
  Modelled from the spec: the layout strategies are not among the sources. The spec gives
  a strategy the operation \<open>itemAt(x, y) \<rightarrow> Item|none\<close>, the hit test used during a drag,
  and has the items be children of the container. The answer is the first child of the
  host that the strategy takes to cover the point, so \<open>itemBelow.parentNode\<close> is the host.
  Every choice of a child for a point is such an answer, for a suitable \<open>itemCovers\<close>.
\<close>

definition itemBelowAt :: "drag \<Rightarrow> position \<Rightarrow> node option" where
  "itemBelowAt s pos =
     find (\<lambda>n. itemCovers s n (pos_left pos) (pos_top pos)) (children s)"

text \<open>\<open>placeholder.compareDocumentPosition(itemBelow) & DOCUMENT_POSITION_PRECEDING\<close>
  for a child \<open>itemBelow\<close> of the host. When the placeholder is a child as well, the item
  precedes it when it comes first among the children; otherwise the document answers.\<close>

definition precedes :: "drag \<Rightarrow> node \<Rightarrow> node \<Rightarrow> bool" where
  "precedes s itemBelow placeholder =
     (if placeholder \<in> set (children s)
      then itemBelow \<in> set (takeWhile (\<lambda>x. x \<noteq> placeholder) (children s))
      else precedingElsewhere s placeholder itemBelow)"

text \<open>
  The relocation of the placeholder (the \<open>if\<close> inside \<open>_onItemDragMove\<close> on the result of
  \<open>compareDocumentPosition\<close>) next to the item that the hit test found, a child of the
  host other than the placeholder: \<open>itemBelow.parentNode\<close> is the host, and
  \<open>itemBelow.nextSibling\<close> stands before the next child element or is null. A placeholder
  that was not a child of the host becomes one. (A placeholder is an element that
  \<open>_onItemDragStart\<close> made; it holds its content \<open>div\<close> only, so it is no ancestor of the
  host.)
\<close>

definition movePlaceholder :: "drag \<Rightarrow> node \<Rightarrow> node \<Rightarrow> node list" where
  "movePlaceholder s placeholder itemBelow =
     (if precedes s itemBelow placeholder
      then insertBefore (children s) placeholder (Some itemBelow)
      else insertBefore (children s) placeholder (nextElementSibling (children s) itemBelow))"

subsection \<open>The handlers\<close>

text \<open>
  Modelled from the spec: \<open>MasonryItem\<close> is not among the sources. The spec has a
  placeholder item created at drag start; \<open>new MasonryItem()\<close> is taken to give a
  \<open>coral-masonry-item\<close> element that carries no attribute yet.
\<close>

definition newMasonryItem :: element where
  "newMasonryItem = \<lparr>localName = ''coral-masonry-item'', attributes = {}\<rparr>"

text \<open>
  \<open>_onItemDragStart\<close>. The placeholder is the reference to the new element, a reference
  that is new to the state; the size of its content is an answer of the rendering
  surface. The handler has assigned \<open>_oldBefore\<close> and \<open>_dropPlaceholder\<close> and has set the
  attribute \<open>_placeholder\<close> when it calls \<open>this.insertBefore(placeholder, item)\<close>, which
  throws a \<open>NotFoundError\<close> for an item that is not a child of the host.
\<close>

definition onItemDragStart :: "drag \<Rightarrow> drag_event \<Rightarrow> node \<Rightarrow> drag outcome" where
  "onItemDragStart s e placeholder =
     (let item = target e in
      if item \<noteq> matchedTarget e then Returns s
      else
        let s1 = s\<lparr>oldBefore := (oldBefore s)(item := getPreviousItem s item)\<rparr>;
            s2 = s1\<lparr>elem := (elem s1)(placeholder := newMasonryItem),
                    dropPlaceholder := (dropPlaceholder s1)(item := Some placeholder)\<rparr>;
            s3 = setAttribute s2 placeholder ''_placeholder''
        in if item \<in> set (children s3)
           then Returns (s3\<lparr>children := insertBefore (children s3) placeholder (Some item)\<rparr>)
           else Throws NotFoundError s3)"

definition onItemDragMove :: "drag \<Rightarrow> drag_event \<Rightarrow> drag" where
  "onItemDragMove s e =
     (let item = target e in
      case dropPlaceholder s item of
        None \<Rightarrow> s
      | Some placeholder \<Rightarrow>
          if item \<noteq> matchedTarget e then s
          else
            let prevPos = prevDragPos s item;
                pos = relativePosition s item;
                s1 = (if (case prevPos of
                            None \<Rightarrow> True
                          | Some pp \<Rightarrow> \<not> isApproachingPlaceholder s pos pp placeholder)
                      then (case itemBelowAt s pos of
                              None \<Rightarrow> s
                            | Some itemBelow \<Rightarrow>
                                if itemBelow \<noteq> placeholder
                                then s\<lparr>children := movePlaceholder s placeholder itemBelow\<rparr>
                                else s)
                      else s)
            in s1\<lparr>prevDragPos := (prevDragPos s1)(item := Some pos)\<rparr>)"

text \<open>\<open>this.replaceChild(newChild, oldChild)\<close>: a \<open>NotFoundError\<close> when the old child is
  not a child of the host; otherwise the new child leaves its place and takes the place
  of the old one.\<close>

definition replaceChild :: "node list \<Rightarrow> node \<Rightarrow> node \<Rightarrow> js_error + node list" where
  "replaceChild cs newChild oldChild =
     (if oldChild \<notin> set cs then Inl NotFoundError
      else if newChild = oldChild then Inr cs
      else Inr (map (\<lambda>x. if x = oldChild then newChild else x) (removeAll newChild cs)))"

text \<open>The three assignments at the end of \<open>_onItemDragEnd\<close>.\<close>

definition clearSession :: "drag \<Rightarrow> node \<Rightarrow> drag" where
  "clearSession s item =
     s\<lparr>oldBefore := (oldBefore s)(item := None),
       dropPlaceholder := (dropPlaceholder s)(item := None),
       prevDragPos := (prevDragPos s)(item := None)\<rparr>"

text \<open>
  \<open>_onItemDragEnd\<close>. \<open>_layoutInstance.reattach\<close> and the drop transition act on the
  strategy and the class list only. The three assignments at the end stand after the
  \<open>if\<close> and in no \<open>finally\<close>: when \<open>replaceChild\<close> throws, the handler is left at that
  call, with \<open>_dropping\<close> set and the three properties as they were.
\<close>

definition onItemDragEnd :: "drag \<Rightarrow> drag_event \<Rightarrow> drag outcome" where
  "onItemDragEnd s e =
     (let item = target e in
      case dropPlaceholder s item of
        None \<Rightarrow> Returns (clearSession s item)
      | Some placeholder \<Rightarrow>
          if item \<noteq> matchedTarget e then Returns (clearSession s item)
          else
            let s0 = s\<lparr>dropping := (dropping s)(item := True)\<rparr> in
            (case replaceChild (children s0) item placeholder of
               Inl err \<Rightarrow> Throws err s0
             | Inr cs \<Rightarrow>
                 let s1 = s0\<lparr>children := cs, dropping := (dropping s0)(item := False)\<rparr>;
                     s2 = s1\<lparr>orderEvents := orderEvents s1 @
                               [\<lparr>detail_item = item,
                                 detail_oldBefore = oldBefore s1 item,
                                 detail_before = getPreviousItem s1 item\<rparr>]\<rparr>
                 in Returns (clearSession s2 item)))"

section \<open>Concrete components\<close>

text \<open>Small instances of the state on which the theorems below are run.\<close>

definition masonryItem :: "string set \<Rightarrow> element" where
  "masonryItem as = \<lparr>localName = ''coral-masonry-item'', attributes = as\<rparr>"

text \<open>Three items; the second is disabled and selected, the third is selected.\<close>

definition threeChildren :: dom where
  "threeChildren =
     \<lparr>children = [1, 2, 3],
      elem = (\<lambda>n. masonryItem (if n = 2 then {''disabled'', ''selected''}
                                else if n = 3 then {''selected''} else {}))\<rparr>"

text \<open>A Masonry of three items, none selected, in mode \<open>multiple\<close>, that has triggered
  no event.\<close>

definition threeItems :: masonry where
  "threeItems =
     \<lparr>children = [1, 2, 3], elem = (\<lambda>n. masonryItem {}),
      selectionMode = MULTIPLE, preventTriggeringEvents = False,
      oldSelection = [], triggered = []\<rparr>"

text \<open>The same Masonry with its first item selected, found in mode \<open>none\<close>.\<close>

definition selectedInNone :: masonry where
  "selectedInNone =
     \<lparr>children = [1, 2, 3],
      elem = (\<lambda>n. masonryItem (if n = 1 then {''selected''} else {})),
      selectionMode = NONE, preventTriggeringEvents = False,
      oldSelection = [], triggered = []\<rparr>"

text \<open>Two selected items recorded as the old selection, at the moment the mode has
  become \<open>single\<close> and the validator is about to run.\<close>

definition twoSelectedInSingle :: masonry where
  "twoSelectedInSingle =
     \<lparr>children = [1, 2, 3],
      elem = (\<lambda>n. masonryItem (if n = 1 \<or> n = 2 then {''selected''} else {})),
      selectionMode = SINGLE, preventTriggeringEvents = False,
      oldSelection = [1, 2], triggered = []\<rparr>"

text \<open>An idle scheduler with two registered layouts, \<open>variable\<close> being the active
  one, for a visible host and for a hidden one.\<close>

definition visibleMasonry :: scheduler where
  "visibleMasonry =
     \<lparr>layouts = [''fixed-centered'', ''variable''], layoutName = Some ''variable'',
      layoutScheduled = False, forceDebounce = False, layouted = False,
      layoutInstance = None, offsetParent = True, frameCallbacks = 0, logged = [],
      doLayoutCalls = 0, layoutPasses = 0\<rparr>"

definition hiddenMasonry :: scheduler where
  "hiddenMasonry =
     \<lparr>layouts = [''fixed-centered'', ''variable''], layoutName = Some ''variable'',
      layoutScheduled = False, forceDebounce = False, layouted = False,
      layoutInstance = None, offsetParent = False, frameCallbacks = 0, logged = [],
      doLayoutCalls = 0, layoutPasses = 0\<rparr>"

text \<open>
  A collection whose item selector has two parts, as that of a list whose items are
  \<open>coral-buttonlist-item\<close> elements or buttons that extend them (\<open>ButtonList\<close> names both
  tags for its collection), and two items of it, one of each kind, that both carry the
  marker \<open>active\<close>.
\<close>

definition buttonListItems :: selectable_collection where
  "buttonListItems =
     SelectableCollection
       [\<lambda>e. localName e = ''coral-buttonlist-item'',
        \<lambda>e. localName e = ''button'' \<and> ''is'' \<in> attributes e]"

definition twoActive :: dom where
  "twoActive =
     \<lparr>children = [1, 2],
      elem = (\<lambda>n. if n = 1
                   then \<lparr>localName = ''coral-buttonlist-item'', attributes = {''active''}\<rparr>
                   else \<lparr>localName = ''button'', attributes = {''is'', ''active''}\<rparr>)\<rparr>"

text \<open>
  The arithmetic of the examples. It rounds nothing, and it is defined for finite
  operands (a divisor that is not zero, the exponent 2, a radicand that is not negative);
  elsewhere it answers NaN. In the examples below the placeholder is 128 wide and 128
  high and the coordinates are multiples of 32, so every intermediate result is a
  multiple of 1/16 that a double holds, the last one the square root 1/4 or 0: no
  operation of an engine rounds there, and it answers the same numbers.
\<close>

fun exactBinary :: "(real \<Rightarrow> real \<Rightarrow> real) \<Rightarrow> double \<Rightarrow> double \<Rightarrow> double" where
  "exactBinary f (Finite a) (Finite b) = Finite (f a b)"
| "exactBinary f x y = NaN"

fun exactDiv :: "double \<Rightarrow> double \<Rightarrow> double" where
  "exactDiv (Finite a) (Finite b) = (if b = 0 then NaN else Finite (a / b))"
| "exactDiv x y = NaN"

fun exactPow :: "double \<Rightarrow> double \<Rightarrow> double" where
  "exactPow (Finite a) (Finite b) = (if b = 2 then Finite (a * a) else NaN)"
| "exactPow x y = NaN"

fun exactSqrt :: "double \<Rightarrow> double" where
  "exactSqrt (Finite a) = (if 0 \<le> a then Finite (sqrt a) else NaN)"
| "exactSqrt x = NaN"

definition exactFloats :: float_ops where
  "exactFloats =
     \<lparr>float_sub = exactBinary (\<lambda>a b. a - b), float_add = exactBinary (\<lambda>a b. a + b),
      float_div = exactDiv, math_pow = exactPow, math_sqrt = exactSqrt\<rparr>"

text \<open>
  A drag in progress: the placeholder 1 stands before the dragged item 2 and the item 3.
  The placeholder is 128 wide and 128 high at the origin of the host, so its centre is
  (64, 64). The dragged item is at (32, 64), a point that the strategy takes the item 3
  to cover. Its previous position was (96, 64), at the same weighted distance 1/4 from
  the centre, or (64, 64), the centre itself.
\<close>

definition levelDrag :: drag where
  "levelDrag =
     \<lparr>children = [1, 2, 3],
      elem = (\<lambda>n. masonryItem (if n = 1 then {''_placeholder''} else {})),
      oldBefore = (\<lambda>n. None),
      dropPlaceholder = (\<lambda>n. if n = 2 then Some 1 else None),
      prevDragPos =
        (\<lambda>n. if n = 2 then Some \<lparr>pos_left = Finite 96, pos_top = Finite 64\<rparr> else None),
      dropping = (\<lambda>n. False),
      orderEvents = [],
      floats = exactFloats,
      hostRect = \<lparr>pos_left = Finite 0, pos_top = Finite 0\<rparr>,
      boundingClientRect = (\<lambda>n. if n = 2 then \<lparr>pos_left = Finite 32, pos_top = Finite 64\<rparr>
                                 else \<lparr>pos_left = Finite 0, pos_top = Finite 0\<rparr>),
      offsetWidth = (\<lambda>n. 128),
      offsetHeight = (\<lambda>n. 128),
      itemCovers = (\<lambda>n x y. n = 3),
      previousSiblingElsewhere = (\<lambda>n. None),
      precedingElsewhere = (\<lambda>n m. False)\<rparr>"

definition leavingDrag :: drag where
  "leavingDrag =
     levelDrag\<lparr>prevDragPos :=
        (\<lambda>n. if n = 2 then Some \<lparr>pos_left = Finite 64, pos_top = Finite 64\<rparr> else None)\<rparr>"

definition dragOfItem2 :: drag_event where
  "dragOfItem2 = \<lparr>target = 2, matchedTarget = 2\<rparr>"

definition dragOfItem3 :: drag_event where
  "dragOfItem3 = \<lparr>target = 3, matchedTarget = 3\<rparr>"

text \<open>
  A drag of the item 3 whose placeholder 1 is not among the children of the host: the
  children are the items 2 and 3, and the item 3 has the item 2 recorded as its old
  neighbour, the placeholder 1 and a previous position.
\<close>

definition orphanDrag :: drag where
  "orphanDrag =
     levelDrag\<lparr>children := [2, 3],
       oldBefore := (\<lambda>n. if n = 3 then Some 2 else None),
       dropPlaceholder := (\<lambda>n. if n = 3 then Some 1 else None),
       prevDragPos :=
         (\<lambda>n. if n = 3 then Some \<lparr>pos_left = Finite 96, pos_top = Finite 64\<rparr> else None)\<rparr>"

text \<open>
  No drag in progress: the children of the host are the items 2 and 3. The item 4 is a
  masonry item that is not a child of the host (an item of a Masonry nested in one of the
  items). The host registers its drag handlers for the selector \<open>coral-masonry-item\<close>,
  which such an item matches as well as a child does.
\<close>

definition idleDrag :: drag where
  "idleDrag =
     levelDrag\<lparr>children := [2, 3], elem := (\<lambda>n. masonryItem {}),
       dropPlaceholder := (\<lambda>n. None), prevDragPos := (\<lambda>n. None)\<rparr>"

definition dragOfItem4 :: drag_event where
  "dragOfItem4 = \<lparr>target = 4, matchedTarget = 4\<rparr>"

section \<open>Properties of SelectableCollection\<close>

subsection \<open>The loop of \<open>_deselectAllExcept\<close>\<close>

lemma deselectLoop_children: "children (deselectLoop h item a xs) = children h"
  by (induction xs arbitrary: h) (auto simp: removeAttribute_def)

lemma deselectLoop_elem:
  "elem (deselectLoop h item a xs) n =
     (if n \<in> set xs \<and> item \<noteq> Some n
      then (elem h n)\<lparr>attributes := attributes (elem h n) - {a}\<rparr> else elem h n)"
proof (induction xs arbitrary: h)
  case Nil
  show ?case by simp
next
  case (Cons x xs)
  show ?case by (simp add: Cons.IH removeAttribute_def) 
qed

lemma deselectAllExcept_elem:
  assumes "deselectAllExceptArgs c a1 a2 = (item, attributeToRemove, selector)"
  shows "elem (deselectAllExcept c h a1 a2) n =
     (if n \<in> set (children h) \<and> matchesAttrSel selector (elem h n) \<and> item \<noteq> Some n
      then (elem h n)\<lparr>attributes := attributes (elem h n) - {attributeToRemove}\<rparr>
      else elem h n)"
  using assms by (simp add: deselectAllExcept_def deselectLoop_elem querySelectorAll_def)

lemma deselectAllExceptArgs_single:
  assumes "deselectAllExceptArgs (SelectableCollection [base]) a1 a2 = (item, attributeToRemove, selector)"
  shows "selector = [(base, attributeToRemove)]"
  using assms
  by (cases "(SelectableCollection [base], a1, a2)" rule: deselectAllExceptArgs.cases)
     (auto simp: SelectableCollection_def orSelected_def)

lemma deselectAllExceptArgs_item:
  assumes "deselectAllExceptArgs c a1 a2 = (item, attributeToRemove, selector)"
  shows "item = (case a1 of Attribute a \<Rightarrow> None | Item i \<Rightarrow> i)"
  using assms
  by (cases "(c, a1, a2)" rule: deselectAllExceptArgs.cases) auto

subsection \<open>Siblings of a child\<close>

text \<open>For a child of the host, the chains of siblings are the children before it, nearest
  first, and the children after it.\<close>

lemma takeWhile_neq_nth:
  "distinct cs \<Longrightarrow> i < length cs \<Longrightarrow> takeWhile (\<lambda>x. x \<noteq> cs ! i) cs = take i cs"
proof (induction cs arbitrary: i)
  case Nil then show ?case by simp
next
  case (Cons a cs)
  show ?case
  proof (cases i)
    case 0 then show ?thesis by simp
  next
    case (Suc j)
    with Cons.prems have "cs ! j \<in> set cs" "a \<notin> set cs" by auto
    then have "a \<noteq> cs ! j" by auto
    with Cons Suc show ?thesis by simp
  qed
qed

lemma dropWhile_neq_nth:
  "distinct cs \<Longrightarrow> i < length cs \<Longrightarrow> dropWhile (\<lambda>x. x \<noteq> cs ! i) cs = drop i cs"
proof (induction cs arbitrary: i)
  case Nil then show ?case by simp
next
  case (Cons a cs)
  show ?case
  proof (cases i)
    case 0 then show ?thesis by simp
  next
    case (Suc j)
    with Cons.prems have "cs ! j \<in> set cs" "a \<notin> set cs" by auto
    then have "a \<noteq> cs ! j" by auto
    with Cons Suc show ?thesis by simp
  qed
qed

lemma previousElementSiblings_nth:
  "distinct cs \<Longrightarrow> i < length cs \<Longrightarrow> previousElementSiblings cs (cs ! i) = rev (take i cs)"
  by (simp add: previousElementSiblings_def takeWhile_neq_nth)

lemma nextElementSiblings_nth:
  "distinct cs \<Longrightarrow> i < length cs \<Longrightarrow> nextElementSiblings cs (cs ! i) = drop (Suc i) cs"
  by (simp add: nextElementSiblings_def dropWhile_neq_nth drop_Suc tl_drop)

lemma siblingLoop_find: "siblingLoop m xs = find m xs"
  by (induction xs) auto

lemma siblingLoop_None: "siblingLoop m xs = None \<longleftrightarrow> (\<forall>x\<in>set xs. \<not> m x)"
  by (induction xs) auto

lemma siblingLoop_Some:
  "siblingLoop m xs = Some r \<longleftrightarrow>
     (\<exists>k<length xs. r = xs ! k \<and> m (xs ! k) \<and> (\<forall>j<k. \<not> m (xs ! j)))"
  unfolding siblingLoop_find find_Some_iff by auto

lemma previous_loop_nearest:
  assumes "i \<le> length cs"
  shows "case siblingLoop m (rev (take i cs)) of
           None \<Rightarrow> \<forall>j<i. \<not> m (cs ! j)
         | Some r \<Rightarrow> \<exists>j<i. r = cs ! j \<and> m r \<and> (\<forall>k. j < k \<and> k < i \<longrightarrow> \<not> m (cs ! k))"
proof (cases "siblingLoop m (rev (take i cs))")
  case None
  then have "\<forall>x\<in>set (take i cs). \<not> m x" by (simp add: siblingLoop_None)
  then have "\<forall>j<i. \<not> m (cs ! j)"
    using assms by (metis in_set_conv_nth length_take min.absorb2 nth_take)
  with None show ?thesis by simp
next
  case (Some r)
  let ?xs = "rev (take i cs)"
  have len: "length ?xs = i" using assms by simp
  from Some obtain k where k: "k < i" "r = ?xs ! k" "m (?xs ! k)" "\<forall>j<k. \<not> m (?xs ! j)"
    unfolding siblingLoop_Some len by blast
  have nth: "\<And>j. j < i \<Longrightarrow> ?xs ! j = cs ! (i - Suc j)"
    using assms by (simp add: rev_nth)
  have "i - Suc k < i" using k(1) by simp
  moreover have "r = cs ! (i - Suc k)" using k nth by simp
  moreover have "m r" using k by simp
  moreover have "\<forall>k'. i - Suc k < k' \<and> k' < i \<longrightarrow> \<not> m (cs ! k')"
  proof (intro allI impI)
    fix k' assume a: "i - Suc k < k' \<and> k' < i"
    then have "i - Suc k' < k" by arith
    then have "\<not> m (?xs ! (i - Suc k'))" using k(4) by blast
    moreover have "?xs ! (i - Suc k') = cs ! k'" using a nth [of "i - Suc k'"] by simp
    ultimately show "\<not> m (cs ! k')" by simp
  qed
  ultimately show ?thesis using Some by auto
qed

lemma next_loop_nearest:
  "case siblingLoop m (drop (Suc i) cs) of
     None \<Rightarrow> \<forall>j. i < j \<and> j < length cs \<longrightarrow> \<not> m (cs ! j)
   | Some r \<Rightarrow> \<exists>j. i < j \<and> j < length cs \<and> r = cs ! j \<and> m r \<and>
                 (\<forall>k. i < k \<and> k < j \<longrightarrow> \<not> m (cs ! k))"
proof (cases "siblingLoop m (drop (Suc i) cs)")
  case None
  then have n: "\<forall>x\<in>set (drop (Suc i) cs). \<not> m x" by (simp add: siblingLoop_None)
  have "\<forall>j. i < j \<and> j < length cs \<longrightarrow> \<not> m (cs ! j)"
  proof (intro allI impI)
    fix j assume a: "i < j \<and> j < length cs"
    then have "drop (Suc i) cs ! (j - Suc i) = cs ! j" "j - Suc i < length (drop (Suc i) cs)"
      by auto
    then have "cs ! j \<in> set (drop (Suc i) cs)" by (metis nth_mem)
    with n show "\<not> m (cs ! j)" by blast
  qed
  with None show ?thesis by simp
next
  case (Some r)
  let ?xs = "drop (Suc i) cs"
  from Some obtain k where k: "k < length ?xs" "r = ?xs ! k" "m (?xs ! k)" "\<forall>j<k. \<not> m (?xs ! j)"
    unfolding siblingLoop_Some by blast
  have kl: "Suc i + k < length cs" using k(1) by simp
  have nth: "\<And>j. j \<le> k \<Longrightarrow> ?xs ! j = cs ! (Suc i + j)" using kl by simp
  have "i < Suc i + k" by simp
  moreover have "r = cs ! (Suc i + k)" using k nth by simp
  moreover have "m r" using k by simp
  moreover have "\<forall>k'. i < k' \<and> k' < Suc i + k \<longrightarrow> \<not> m (cs ! k')"
  proof (intro allI impI)
    fix k' assume a: "i < k' \<and> k' < Suc i + k"
    then have "k' - Suc i < k" by arith
    then have "\<not> m (?xs ! (k' - Suc i))" using k(4) by blast
    moreover have "?xs ! (k' - Suc i) = cs ! k'" using a kl by simp
    ultimately show "\<not> m (cs ! k')" by simp
  qed
  ultimately have "\<exists>j. i < j \<and> j < length cs \<and> r = cs ! j \<and> m r \<and>
                 (\<forall>k. i < k \<and> k < j \<longrightarrow> \<not> m (cs ! k))"
    using kl by (intro exI [of _ "Suc i + k"]) simp
  then show ?thesis using Some by simp
qed

subsection \<open>Evaluation of the concrete components\<close>

lemmas collection_eval =
  items_def SelectableCollection_def masonryItemSelector_def masonryItem_def
  matchesSel_def matchesAttrSel_def querySelectorAll_def selectedSelector_def
  getAllSelected_def isSelectable_def hasAttribute_def removeAttribute_def setAttribute_def

lemmas selection_eval =
  collection_eval selectedItems_def validateSelection_def triggerChangeEvent_def
  arraysAreDifferent_def firstOrNull_def lastOrUndefined_def onItemSelectedChanged_def
  onItemClick_def setSelectionMode_def modeConstraint_def normalizesSingle_def Let_def

lemmas drag_eval =
  onItemDragMove_def isApproachingPlaceholder_def placeholderDistance_def
  relativePosition_def weightedDistance_def itemBelowAt_def movePlaceholder_def precedes_def
  insertBefore_def nextElementSibling_def nextElementSiblings_def dragOfItem2_def
  dragOfItem3_def leavingDrag_def levelDrag_def exactFloats_def Let_def

subsection \<open>The selectable neighbours of an item\<close>

text \<open>
  Claim C3. For every child of the host, and so for every item of the collection,
  \<open>_getPreviousSelectable\<close> and \<open>_getNextSelectable\<close> return an element and never null.
  When a sibling in the direction of the search matches the selector of selectable items,
  the result is the nearest such sibling: it is selectable and no sibling between it and
  the item is. When there is none, the result is the item itself.
\<close>

theorem selectable_sibling_clamp:
  assumes "distinct (children h)" and "i < length (children h)"
  shows "(\<exists>r. getPreviousSelectable c h (children h ! i) = Some r \<and>
            (if \<exists>j<i. isSelectable c h (children h ! j)
             then \<exists>j<i. r = children h ! j \<and> isSelectable c h r \<and>
                    (\<forall>k. j < k \<and> k < i \<longrightarrow> \<not> isSelectable c h (children h ! k))
             else r = children h ! i)) \<and>
         (\<exists>r. getNextSelectable c h (children h ! i) = Some r \<and>
            (if \<exists>j. i < j \<and> j < length (children h) \<and> isSelectable c h (children h ! j)
             then \<exists>j. i < j \<and> j < length (children h) \<and> r = children h ! j \<and>
                    isSelectable c h r \<and>
                    (\<forall>k. i < k \<and> k < j \<longrightarrow> \<not> isSelectable c h (children h ! k))
             else r = children h ! i))"
proof
  have "i \<le> length (children h)" using assms by simp
  from previous_loop_nearest [OF this, of "isSelectable c h"]
  show "\<exists>r. getPreviousSelectable c h (children h ! i) = Some r \<and>
            (if \<exists>j<i. isSelectable c h (children h ! j)
             then \<exists>j<i. r = children h ! j \<and> isSelectable c h r \<and>
                    (\<forall>k. j < k \<and> k < i \<longrightarrow> \<not> isSelectable c h (children h ! k))
             else r = children h ! i)"
    unfolding getPreviousSelectable_def previousElementSiblings_nth [OF assms] orItem_def
    by (cases "siblingLoop (isSelectable c h) (rev (take i (children h)))") auto
next
  from next_loop_nearest [where m = "isSelectable c h" and i = i and cs = "children h"]
  show "\<exists>r. getNextSelectable c h (children h ! i) = Some r \<and>
            (if \<exists>j. i < j \<and> j < length (children h) \<and> isSelectable c h (children h ! j)
             then \<exists>j. i < j \<and> j < length (children h) \<and> r = children h ! j \<and>
                    isSelectable c h r \<and>
                    (\<forall>k. i < k \<and> k < j \<longrightarrow> \<not> isSelectable c h (children h ! k))
             else r = children h ! i)"
    unfolding getNextSelectable_def nextElementSiblings_nth [OF assms] orItem_def
    by (cases "siblingLoop (isSelectable c h) (drop (Suc i) (children h))") auto
qed

theorem selectable_sibling_clamp_witness:
  "distinct (children threeChildren) \<and> 2 < length (children threeChildren) \<and>
   children threeChildren ! 2 = 3 \<and>
   getPreviousSelectable items threeChildren 3 = Some 1 \<and>
   getNextSelectable items threeChildren 3 = Some 3"
proof -
  have d: "distinct (children threeChildren)" and l: "2 < length (children threeChildren)"
    by (simp_all add: threeChildren_def)
  have e: "getPreviousSelectable items threeChildren 3 = Some 1 \<and>
      getNextSelectable items threeChildren 3 = Some 3"
    by (simp add: getPreviousSelectable_def getNextSelectable_def previousElementSiblings_def
        nextElementSiblings_def orItem_def collection_eval threeChildren_def)
  show ?thesis
    using d l e selectable_sibling_clamp [OF d l, of items] by (simp add: threeChildren_def)
qed

subsection \<open>Removing the marker from all items but one\<close>

text \<open>
  The marker that \<open>_deselectAllExcept\<close> removes is the attribute name passed to it, or
  \<open>selected\<close> when none or the empty string is passed. For a collection whose item
  selector has a single part, every child of the host that is an item of the collection
  and carries the marker loses it, the item to keep apart; nothing else of the element
  changes, whatever other attributes (\<open>disabled\<close> among them) it carries, and the other
  elements are left as they were.
\<close>

lemma matchesAttrSel_map:
  "matchesAttrSel (map (\<lambda>c. (c, a)) parts) e = (matchesSel parts e \<and> a \<in> attributes e)"
  by (induction parts) (auto simp: matchesAttrSel_def matchesSel_def)

lemma deselectAllExcept_one_part:
  "elem (deselectAllExcept (SelectableCollection [base]) h (Attribute a) a2) n =
     (if n \<in> set (children h) \<and> base (elem h n) \<and> orSelected a \<in> attributes (elem h n)
      then (elem h n)\<lparr>attributes := attributes (elem h n) - {orSelected a}\<rparr> else elem h n)"
  "elem (deselectAllExcept (SelectableCollection [base]) h (Item i) (Some a)) n =
     (if n \<in> set (children h) \<and> base (elem h n) \<and> orSelected a \<in> attributes (elem h n) \<and>
         i \<noteq> Some n
      then (elem h n)\<lparr>attributes := attributes (elem h n) - {orSelected a}\<rparr> else elem h n)"
  "elem (deselectAllExcept (SelectableCollection [base]) h (Item i) None) n =
     (if n \<in> set (children h) \<and> base (elem h n) \<and> ''selected'' \<in> attributes (elem h n) \<and>
         i \<noteq> Some n
      then (elem h n)\<lparr>attributes := attributes (elem h n) - {''selected''}\<rparr> else elem h n)"
  by (simp_all add: deselectAllExcept_def deselectLoop_elem querySelectorAll_def
      SelectableCollection_def matchesAttrSel_def)

text \<open>With the default marker the same holds for an item selector of any number of
  parts.\<close>

lemma deselectAllExcept_default_marker:
  "elem (deselectAllExcept (SelectableCollection parts) h (Item i) None) n =
     (if n \<in> set (children h) \<and> matchesSel parts (elem h n) \<and>
         ''selected'' \<in> attributes (elem h n) \<and> i \<noteq> Some n
      then (elem h n)\<lparr>attributes := attributes (elem h n) - {''selected''}\<rparr> else elem h n)"
  by (simp add: deselectAllExcept_def deselectLoop_elem querySelectorAll_def
      SelectableCollection_def matchesAttrSel_map)

text \<open>
  For an item selector of more than one part, a marker other than \<open>selected\<close> replaces
  the attribute of the first part only: the other parts of the query still ask for
  \<open>selected\<close>, while the attribute removed is the marker.
\<close>

lemma deselectAllExceptArgs_two_parts:
  "a \<noteq> [] \<Longrightarrow>
     deselectAllExceptArgs (SelectableCollection [base1, base2]) (Attribute a) None =
       (None, a, [(base1, a), (base2, ''selected'')])"
  by (simp add: SelectableCollection_def orSelected_def)

text \<open>
  Claim C9. The claim has \<open>_deselectAllExcept\<close> remove the marker from every item that
  carries it, for every collection and every marker. The code does not do so for the
  collection of a button list and the marker \<open>active\<close>: of two items that carry \<open>active\<close>,
  one for each part of the item selector, the call \<open>_deselectAllExcept('active')\<close>, which
  names no item to keep, clears the first and leaves the marker on the second.
\<close>

theorem deselectAllExcept_second_part_keeps_marker:
  "matchesSel (allItemsSelector buttonListItems) (elem twoActive 1) \<and>
   matchesSel (allItemsSelector buttonListItems) (elem twoActive 2) \<and>
   hasAttribute twoActive 1 ''active'' \<and> hasAttribute twoActive 2 ''active'' \<and>
   \<not> hasAttribute (deselectAllExcept buttonListItems twoActive (Attribute ''active'') None) 1
       ''active'' \<and>
   hasAttribute (deselectAllExcept buttonListItems twoActive (Attribute ''active'') None) 2
     ''active''"
  by (simp add: buttonListItems_def twoActive_def deselectAllExcept_def querySelectorAll_def
      SelectableCollection_def matchesAttrSel_def matchesSel_def orSelected_def
      hasAttribute_def removeAttribute_def)

section \<open>Properties of the selection validator\<close>

lemma selectedItems_filter:
  "selectedItems s =
     filter (\<lambda>n. masonryItemSelector (elem s n) \<and> ''selected'' \<in> attributes (elem s n))
       (children s)"
  by (simp add: selectedItems_def getAllSelected_def selectedSelector_def items_def
      SelectableCollection_def querySelectorAll_def matchesAttrSel_def)

lemma masonryItemSelector_remove_selected [simp]:
  "masonryItemSelector (e\<lparr>attributes := attributes e - {''selected''}\<rparr>) = masonryItemSelector e"
  by (simp add: masonryItemSelector_def)

lemma masonryItemSelector_insert_selected [simp]:
  "masonryItemSelector (e\<lparr>attributes := insert ''selected'' (attributes e)\<rparr>) = masonryItemSelector e"
  by (simp add: masonryItemSelector_def)

lemma forEachNone_fields:
  "children (forEachNone s xs) = children s"
  "selectionMode (forEachNone s xs) = selectionMode s"
  "oldSelection (forEachNone s xs) = oldSelection s"
  "triggered (forEachNone s xs) = triggered s"
  "preventTriggeringEvents (forEachNone s xs) = (preventTriggeringEvents s \<or> xs \<noteq> [])"
  by (induction xs arbitrary: s; simp add: removeAttribute_def)+

lemma forEachNone_elem:
  "elem (forEachNone s xs) n =
     (if n \<in> set xs then (elem s n)\<lparr>attributes := attributes (elem s n) - {''selected''}\<rparr>
      else elem s n)"
  by (induction xs arbitrary: s) (simp_all add: removeAttribute_def)

lemma forEachSingle_fields:
  "children (forEachSingle s item xs) = children s"
  "selectionMode (forEachSingle s item xs) = selectionMode s"
  "oldSelection (forEachSingle s item xs) = oldSelection s"
  "triggered (forEachSingle s item xs) = triggered s"
  by (induction xs arbitrary: s; simp add: removeAttribute_def)+

lemma forEachSingle_elem:
  "elem (forEachSingle s item xs) n =
     (if n \<in> set xs \<and> n \<noteq> item
      then (elem s n)\<lparr>attributes := attributes (elem s n) - {''selected''}\<rparr>
      else elem s n)"
  by (induction xs arbitrary: s) (simp_all add: removeAttribute_def)

lemma triggerChangeEvent_fields:
  "children (triggerChangeEvent s) = children s"
  "elem (triggerChangeEvent s) = elem s"
  "selectionMode (triggerChangeEvent s) = selectionMode s"
  "preventTriggeringEvents (triggerChangeEvent s) = preventTriggeringEvents s"
  by (simp_all add: triggerChangeEvent_def Let_def)

lemma selectedItems_cong:
  "children s' = children s \<Longrightarrow> elem s' = elem s \<Longrightarrow> selectedItems s' = selectedItems s"
  by (simp add: selectedItems_filter)

lemma selectedItems_triggerChangeEvent [simp]:
  "selectedItems (triggerChangeEvent s) = selectedItems s"
  by (rule selectedItems_cong) (simp_all add: triggerChangeEvent_fields)

lemma selectedItems_forEachNone:
  "selectedItems (forEachNone s xs) = filter (\<lambda>n. n \<notin> set xs) (selectedItems s)"
  unfolding selectedItems_filter forEachNone_fields filter_filter
  by (rule filter_cong) (auto simp: forEachNone_elem)

lemma selectedItems_forEachSingle:
  "selectedItems (forEachSingle s item xs) =
     filter (\<lambda>n. n \<notin> set xs \<or> n = item) (selectedItems s)"
  unfolding selectedItems_filter forEachSingle_fields filter_filter
  by (rule filter_cong) (auto simp: forEachSingle_elem)

lemma selectedItems_prevent [simp]:
  "selectedItems (s\<lparr>preventTriggeringEvents := b\<rparr>) = selectedItems s"
  by (simp add: selectedItems_filter)

lemma selectedItems_mode [simp]:
  "selectedItems (s\<lparr>selectionMode := m\<rparr>) = selectedItems s"
  by (simp add: selectedItems_filter)

lemma distinct_selectedItems: "distinct (children s) \<Longrightarrow> distinct (selectedItems s)"
  by (simp add: selectedItems_filter)

lemma filter_eq_distinct:
  "distinct xs \<Longrightarrow> filter (\<lambda>n. n = x) xs = (if x \<in> set xs then [x] else [])"
  by (induction xs) auto

lemma selectedItems_validateSelection:
  "selectedItems (validateSelection s item0) =
     (if selectionMode s = NONE then []
      else if normalizesSingle s item0
      then filter (\<lambda>n. Some n = (case item0 of Some i \<Rightarrow> Some i | None \<Rightarrow> lastOrUndefined (selectedItems s)))
             (selectedItems s)
      else selectedItems s)"
  by (auto simp: validateSelection_def Let_def normalizesSingle_def selectedItems_forEachNone
      selectedItems_forEachSingle split: option.splits intro: filter_cong)

lemma validateSelection_fields:
  "children (validateSelection s item0) = children s"
  "selectionMode (validateSelection s item0) = selectionMode s"
  by (simp_all add: validateSelection_def Let_def triggerChangeEvent_fields forEachNone_fields
      forEachSingle_fields split: option.splits)

lemma selectedItems_has_selected:
  "n \<in> set (selectedItems s) \<Longrightarrow> hasAttribute s n ''selected''"
  by (simp add: selectedItems_filter hasAttribute_def)

lemma lastOrUndefined_last: "xs \<noteq> [] \<Longrightarrow> lastOrUndefined xs = Some (last xs)"
  by (cases xs) (simp_all add: lastOrUndefined_def)

lemma normalizesSingle_None:
  "selectionMode s = SINGLE \<Longrightarrow> length (selectedItems s) > 1 \<Longrightarrow> normalizesSingle s None"
proof -
  assume m: "selectionMode s = SINGLE" and l: "length (selectedItems s) > 1"
  then have ne: "selectedItems s \<noteq> []" by auto
  then have "last (selectedItems s) \<in> set (selectedItems s)" by simp
  then have "hasAttribute s (last (selectedItems s)) ''selected''"
    by (rule selectedItems_has_selected)
  with m l ne show ?thesis by (simp add: normalizesSingle_def lastOrUndefined_last)
qed

lemma length_filter_eq_le1: "distinct xs \<Longrightarrow> length (filter (\<lambda>n. Some n = y) xs) \<le> Suc 0"
proof (cases y)
  case None then show ?thesis by simp
next
  case (Some x)
  assume "distinct xs"
  then have "filter (\<lambda>n. n = x) xs = (if x \<in> set xs then [x] else [])" by (rule filter_eq_distinct)
  moreover have "(\<lambda>n. Some n = y) = (\<lambda>n. n = x)" using Some by auto
  ultimately show ?thesis by simp
qed

lemma validate_single_le1:
  assumes "distinct (children s)" and "selectionMode s = SINGLE"
    and "length (selectedItems s) \<le> 1 \<or> item0 = None \<or> (\<exists>i. item0 = Some i \<and> hasAttribute s i ''selected'')"
  shows "length (selectedItems (validateSelection s item0)) \<le> 1"
proof (cases "normalizesSingle s item0")
  case True
  then show ?thesis
    using assms(2) length_filter_eq_le1 [OF distinct_selectedItems [OF assms(1)]]
    by (simp add: selectedItems_validateSelection)
next
  case False
  have "length (selectedItems s) \<le> 1"
  proof (rule ccontr)
    assume "\<not> length (selectedItems s) \<le> 1"
    then have l: "length (selectedItems s) > 1" by simp
    with assms(3) consider "item0 = None" | i where "item0 = Some i" "hasAttribute s i ''selected''"
      by auto
    then show False
    proof cases
      case 1 with False normalizesSingle_None [OF assms(2) l] show False by simp
    next
      case 2 with False l assms(2) show False by (simp add: normalizesSingle_def)
    qed
  qed
  with False assms(2) show ?thesis by (simp add: selectedItems_validateSelection)
qed

lemma validate_constraint:
  assumes "distinct (children s)"
    and "modeConstraint s \<or> item0 = None \<or> (\<exists>i. item0 = Some i \<and> hasAttribute s i ''selected'')"
  shows "modeConstraint (validateSelection s item0)"
proof (cases "selectionMode s")
  case NONE
  then show ?thesis
    by (simp add: modeConstraint_def validateSelection_fields selectedItems_validateSelection)
next
  case SINGLE
  with assms(2) have "length (selectedItems s) \<le> 1 \<or> item0 = None \<or>
      (\<exists>i. item0 = Some i \<and> hasAttribute s i ''selected'')"
    by (auto simp: modeConstraint_def)
  from validate_single_le1 [OF assms(1) SINGLE this] SINGLE show ?thesis
    by (simp add: modeConstraint_def validateSelection_fields)
next
  case MULTIPLE
  then show ?thesis by (simp add: modeConstraint_def validateSelection_fields)
qed

lemma selectedItems_removeAttribute:
  "selectedItems (removeAttribute s n ''selected'') = filter (\<lambda>x. x \<noteq> n) (selectedItems s)"
  unfolding selectedItems_filter filter_filter
  by (simp add: removeAttribute_def) (rule filter_cong, auto)

lemma write_fields:
  "children (removeAttribute s n a) = children s"
  "children (setAttribute s n a) = children s"
  "selectionMode (removeAttribute s n a) = selectionMode s"
  "selectionMode (setAttribute s n a) = selectionMode s"
  "hasAttribute (setAttribute s n a) n a"
  by (simp_all add: removeAttribute_def setAttribute_def hasAttribute_def)

lemma modeConstraint_removeAttribute:
  "modeConstraint s \<Longrightarrow> modeConstraint (removeAttribute s n ''selected'')"
proof -
  assume c: "modeConstraint s"
  have l: "length (filter (\<lambda>x. x \<noteq> n) (selectedItems s)) \<le> length (selectedItems s)" by simp
  show ?thesis
  proof (cases "selectionMode s")
    case NONE
    with c show ?thesis
      by (simp add: modeConstraint_def write_fields selectedItems_removeAttribute)
  next
    case SINGLE
    with c have "length (selectedItems s) \<le> 1" by (simp add: modeConstraint_def)
    with l have "length (filter (\<lambda>x. x \<noteq> n) (selectedItems s)) \<le> 1" by (rule le_trans)
    with SINGLE show ?thesis
      by (simp add: modeConstraint_def write_fields selectedItems_removeAttribute)
  next
    case MULTIPLE
    then show ?thesis by (simp add: modeConstraint_def write_fields)
  qed
qed

lemma selectionStep_children: "children (selectionStep s ev) = children s"
  by (cases ev)
     (simp_all add: onItemSelectedChanged_def onItemClick_def setSelectionMode_def
        validateSelection_fields write_fields)

lemma selectionStep_constraint:
  assumes "distinct (children s)" and "modeConstraint s"
  shows "modeConstraint (selectionStep s ev)"
proof (cases ev)
  case (Click item)
  show ?thesis
  proof (cases "selectionMode s = NONE")
    case True with Click assms show ?thesis by simp
  next
    case False
    show ?thesis
    proof (cases "hasAttribute s item ''selected''")
      case True
      with False Click assms show ?thesis
        by (simp add: onItemSelectedChanged_def onItemClick_def validate_constraint
            write_fields modeConstraint_removeAttribute)
    next
      case h: False
      with False Click assms show ?thesis
        by (simp add: onItemSelectedChanged_def onItemClick_def validate_constraint
            write_fields)
    qed
  qed
next
  case (SetSelected item b)
  with assms show ?thesis
    by (cases b)
       (simp_all add: onItemSelectedChanged_def validate_constraint write_fields
          modeConstraint_removeAttribute)
next
  case (SetSelectionMode m)
  with assms show ?thesis by (simp add: setSelectionMode_def validate_constraint)
qed

lemma selectionRun_children: "children (selectionRun s evs) = children s"
  by (induction evs arbitrary: s) (simp_all add: selectionStep_children)

lemma selectionRun_constraint:
  "distinct (children s) \<Longrightarrow> modeConstraint s \<Longrightarrow> modeConstraint (selectionRun s evs)"
  by (induction evs arbitrary: s) (simp_all add: selectionStep_children selectionStep_constraint)

lemma selectionRun_append: "selectionRun s (evs @ evs') = selectionRun (selectionRun s evs) evs'"
  by (induction evs arbitrary: s) simp_all

lemma survivor_given:
  assumes "distinct (children s)" "selectionMode s = SINGLE" "length (selectedItems s) > 1"
    "item \<in> set (selectedItems s)"
  shows "selectedItems (validateSelection s (Some item)) = [item]"
proof -
  have "normalizesSingle s (Some item)"
    using assms by (simp add: normalizesSingle_def selectedItems_has_selected)
  moreover have "filter (\<lambda>n. n = item) (selectedItems s) = [item]"
    using filter_eq_distinct [OF distinct_selectedItems [OF assms(1)], of item] assms(4) by simp
  ultimately show ?thesis using assms(2) by (simp add: selectedItems_validateSelection)
qed

lemma survivor_last:
  assumes "distinct (children s)" "selectionMode s = SINGLE" "length (selectedItems s) > 1"
  shows "selectedItems (validateSelection s None) = [last (selectedItems s)]"
proof -
  have ne: "selectedItems s \<noteq> []" using assms(3) by auto
  have "filter (\<lambda>n. n = last (selectedItems s)) (selectedItems s) = [last (selectedItems s)]"
    using filter_eq_distinct [OF distinct_selectedItems [OF assms(1)], of "last (selectedItems s)"] ne
    by simp
  then show ?thesis
    using assms(2) normalizesSingle_None [OF assms(2,3)] ne
    by (simp add: selectedItems_validateSelection lastOrUndefined_last)
qed

subsection \<open>The constraint of the selection mode\<close>

text \<open>
  Claim C2. The validator run without an item, as the setter of the selection mode and
  \<open>connectedCallback\<close> run it, leaves a selection that satisfies the constraint of the
  mode, from any state. From there, and from any state that satisfies the constraint,
  every sequence of selection changes (clicks, writes of the \<open>selected\<close> attribute, changes
  of the mode), each followed by its run of the validator, ends in a state that satisfies
  it: no selected item in mode \<open>none\<close>, at most one in mode \<open>single\<close>, nothing asked in
  mode \<open>multiple\<close>. When the validator finds more than one selected item in mode \<open>single\<close>,
  the item that stays selected is the selected item passed to it, or the last selected
  item in document order when none is passed.
\<close>

theorem selection_mode_constraint:
  assumes "distinct (children s)"
  shows "modeConstraint (validateSelection s None) \<and>
         modeConstraint (selectionRun (validateSelection s None) evs) \<and>
         (modeConstraint s \<longrightarrow> modeConstraint (selectionRun s evs)) \<and>
         (selectionMode s = SINGLE \<and> 1 < length (selectedItems s) \<longrightarrow>
            selectedItems (validateSelection s None) = [last (selectedItems s)] \<and>
            (\<forall>item\<in>set (selectedItems s).
               selectedItems (validateSelection s (Some item)) = [item]))"
proof -
  have v: "modeConstraint (validateSelection s None)"
    using assms by (intro validate_constraint) simp_all
  have "distinct (children (validateSelection s None))"
    using assms by (simp add: validateSelection_fields)
  from selectionRun_constraint [OF this v]
  have r: "modeConstraint (selectionRun (validateSelection s None) evs)" .
  have i: "modeConstraint s \<longrightarrow> modeConstraint (selectionRun s evs)"
    using assms selectionRun_constraint by blast
  have "selectionMode s = SINGLE \<and> 1 < length (selectedItems s) \<longrightarrow>
          selectedItems (validateSelection s None) = [last (selectedItems s)] \<and>
          (\<forall>item\<in>set (selectedItems s).
             selectedItems (validateSelection s (Some item)) = [item])"
    using assms survivor_last survivor_given by blast
  with v r i show ?thesis by blast
qed

theorem selection_mode_constraint_witness:
  "distinct (children threeItems) \<and> modeConstraint threeItems \<and>
   selectionMode (selectionRun threeItems [SetSelectionMode SINGLE, Click 2, Click 3]) = SINGLE \<and>
   selectedItems (selectionRun threeItems [SetSelectionMode SINGLE, Click 2, Click 3]) = [3] \<and>
   modeConstraint (selectionRun threeItems [SetSelectionMode SINGLE, Click 2, Click 3]) \<and>
   distinct (children twoSelectedInSingle) \<and> selectionMode twoSelectedInSingle = SINGLE \<and>
   selectedItems twoSelectedInSingle = [1, 2] \<and>
   selectedItems (validateSelection twoSelectedInSingle None) = [2] \<and>
   selectedItems (validateSelection twoSelectedInSingle (Some 1)) = [1]"
proof -
  have d: "distinct (children threeItems)" and d2: "distinct (children twoSelectedInSingle)"
    by (simp_all add: threeItems_def twoSelectedInSingle_def)
  have c: "modeConstraint threeItems" by (simp add: modeConstraint_def threeItems_def)
  have r: "selectionMode (selectionRun threeItems [SetSelectionMode SINGLE, Click 2, Click 3])
             = SINGLE \<and>
      selectedItems (selectionRun threeItems [SetSelectionMode SINGLE, Click 2, Click 3]) = [3]"
    by (simp add: selection_eval threeItems_def)
  have t: "selectionMode twoSelectedInSingle = SINGLE \<and> selectedItems twoSelectedInSingle = [1, 2]"
    by (simp add: selection_eval twoSelectedInSingle_def)
  from selection_mode_constraint [OF d, of "[SetSelectionMode SINGLE, Click 2, Click 3]"] c
  have 1: "modeConstraint (selectionRun threeItems [SetSelectionMode SINGLE, Click 2, Click 3])"
    by blast
  from selection_mode_constraint [OF d2, of "[]"] t
  have 2: "selectedItems (validateSelection twoSelectedInSingle None) = [2] \<and>
      selectedItems (validateSelection twoSelectedInSingle (Some 1)) = [1]"
    by simp
  from d d2 c r t 1 2 show ?thesis by blast
qed

text \<open>
  The starting state matters. In mode \<open>single\<close> the validator clears the other items only
  when the item passed to it carries \<open>selected\<close>: run with the unselected item 3 on a state
  that holds two selected items, it leaves both selected. No selection change leads from
  a state that satisfies the constraint to such a state before the validator runs, as
  the theorem shows.
\<close>

lemma validateSelection_unselected_item:
  "selectedItems (validateSelection twoSelectedInSingle (Some 3)) = [1, 2]"
  by (simp add: selection_eval twoSelectedInSingle_def)

subsection \<open>Suppressed notifications\<close>

lemma triggerChangeEvent_prevented:
  "preventTriggeringEvents s \<Longrightarrow> triggerChangeEvent s = s"
  by (simp add: triggerChangeEvent_def Let_def)

lemma validateSelection_prevent:
  "preventTriggeringEvents (validateSelection s item0) =
     (if selectionMode s = NONE then preventTriggeringEvents s \<or> selectedItems s \<noteq> []
      else if normalizesSingle s item0 then False else preventTriggeringEvents s)"
  by (auto simp: validateSelection_def Let_def normalizesSingle_def triggerChangeEvent_fields
      forEachNone_fields split: option.splits)

lemma validateSelection_quiet:
  assumes "preventTriggeringEvents s \<or> (selectionMode s = NONE \<and> selectedItems s \<noteq> [])"
    and "\<not> normalizesSingle s item0"
  shows "triggered (validateSelection s item0) = triggered s"
proof (cases "selectionMode s = NONE")
  case True
  with assms(1) have "preventTriggeringEvents (forEachNone s (selectedItems s))"
    by (auto simp: forEachNone_fields)
  then show ?thesis using True
    by (simp add: validateSelection_def Let_def triggerChangeEvent_prevented forEachNone_fields)
next
  case False
  with assms(1) have p: "preventTriggeringEvents s" by simp
  show ?thesis
  proof (cases "selectionMode s = SINGLE")
    case True
    with assms(2) p show ?thesis
      by (auto simp: validateSelection_def Let_def normalizesSingle_def
          triggerChangeEvent_prevented split: option.splits)
  next
    case m: False
    with False p show ?thesis
      by (simp add: validateSelection_def Let_def triggerChangeEvent_prevented)
  qed
qed

lemma write_prevent:
  "preventTriggeringEvents (removeAttribute s n a) = preventTriggeringEvents s"
  "preventTriggeringEvents (setAttribute s n a) = preventTriggeringEvents s"
  "triggered (removeAttribute s n a) = triggered s"
  "triggered (setAttribute s n a) = triggered s"
  by (simp_all add: removeAttribute_def setAttribute_def)

lemma selectionStep_quiet:
  assumes "preventTriggeringEvents s" and "\<not> stepNormalizes s ev"
  shows "preventTriggeringEvents (selectionStep s ev) \<and>
         triggered (selectionStep s ev) = triggered s"
proof (cases ev)
  case (Click item)
  show ?thesis
  proof (cases "selectionMode s = NONE")
    case True with Click assms show ?thesis by simp
  next
    case False
    with Click assms(2) have n: "\<not> normalizesSingle (onItemClick s item) (Some item)" by simp
    have p: "preventTriggeringEvents (onItemClick s item)"
      using assms(1) by (simp add: onItemClick_def write_prevent)
    have t: "triggered (onItemClick s item) = triggered s"
      by (simp add: onItemClick_def write_prevent)
    from validateSelection_quiet [OF disjI1 [OF p] n] n p t Click False show ?thesis
      by (simp add: onItemSelectedChanged_def validateSelection_prevent)
  qed
next
  case (SetSelected item b)
  let ?s1 = "if b then setAttribute s item ''selected'' else removeAttribute s item ''selected''"
  from SetSelected assms(2) have n: "\<not> normalizesSingle ?s1 (Some item)" by simp
  have p: "preventTriggeringEvents ?s1" using assms(1) by (simp add: write_prevent)
  have t: "triggered ?s1 = triggered s" by (simp add: write_prevent)
  from validateSelection_quiet [OF disjI1 [OF p] n] n p t SetSelected show ?thesis
    by (simp add: onItemSelectedChanged_def validateSelection_prevent)
next
  case (SetSelectionMode m)
  let ?s1 = "s\<lparr>selectionMode := m\<rparr>"
  from SetSelectionMode assms(2) have n: "\<not> normalizesSingle ?s1 None" by simp
  have p: "preventTriggeringEvents ?s1" using assms(1) by simp
  from validateSelection_quiet [OF disjI1 [OF p] n] n p SetSelectionMode show ?thesis
    by (simp add: setSelectionMode_def validateSelection_prevent)
qed

lemma selectionRun_quiet:
  "preventTriggeringEvents s \<Longrightarrow> \<not> runNormalizes s evs \<Longrightarrow>
     preventTriggeringEvents (selectionRun s evs) \<and> triggered (selectionRun s evs) = triggered s"
proof (induction evs arbitrary: s)
  case Nil
  then show ?case by simp
next
  case (Cons ev evs)
  from Cons.prems have n: "\<not> stepNormalizes s ev" "\<not> runNormalizes (selectionStep s ev) evs"
    by simp_all
  from selectionStep_quiet [OF Cons.prems(1) n(1)]
  have q: "preventTriggeringEvents (selectionStep s ev)"
    "triggered (selectionStep s ev) = triggered s" by simp_all
  from Cons.IH [OF q(1) n(2)] q(2) show ?case by simp
qed

lemma validateSelection_elem_NONE:
  "selectionMode s = NONE \<Longrightarrow>
     elem (validateSelection s item0) n =
       (if n \<in> set (selectedItems s)
        then (elem s n)\<lparr>attributes := attributes (elem s n) - {''selected''}\<rparr> else elem s n)"
  by (simp add: validateSelection_def Let_def triggerChangeEvent_fields forEachNone_elem)

text \<open>
  Claim C6. In mode \<open>none\<close> a run of the validator leaves no item selected: every
  selected item has lost the \<open>selected\<close> attribute, the other elements are untouched, and
  when there was an item to clear the run triggers no change event.
\<close>

theorem none_mode_clears_silently:
  assumes "selectionMode s = NONE"
  shows "selectedItems (validateSelection s item0) = [] \<and>
         (\<forall>n\<in>set (selectedItems s). \<not> hasAttribute (validateSelection s item0) n ''selected'') \<and>
         (\<forall>n. n \<notin> set (selectedItems s) \<longrightarrow> elem (validateSelection s item0) n = elem s n) \<and>
         (selectedItems s \<noteq> [] \<longrightarrow> triggered (validateSelection s item0) = triggered s)"
proof -
  have n: "\<not> normalizesSingle s item0" using assms by (simp add: normalizesSingle_def)
  have "selectedItems s \<noteq> [] \<Longrightarrow> triggered (validateSelection s item0) = triggered s"
    using assms n by (intro validateSelection_quiet) simp_all
  then show ?thesis
    using assms
    by (simp add: selectedItems_validateSelection hasAttribute_def validateSelection_elem_NONE)
qed

theorem none_mode_clears_silently_witness:
  "selectionMode selectedInNone = NONE \<and> selectedItems selectedInNone = [1] \<and>
   selectedItems (validateSelection selectedInNone (Some 1)) = [] \<and>
   \<not> hasAttribute (validateSelection selectedInNone (Some 1)) 1 ''selected'' \<and>
   triggered (validateSelection selectedInNone (Some 1)) = triggered selectedInNone"
proof -
  have m: "selectionMode selectedInNone = NONE" by (simp add: selectedInNone_def)
  have s: "selectedItems selectedInNone = [1]" by (simp add: selection_eval selectedInNone_def)
  from none_mode_clears_silently [OF m, of "Some 1"] m s show ?thesis by simp
qed










subsection \<open>The detail of a change event\<close>

lemma triggerChangeEvent_payload:
  "triggered (triggerChangeEvent s) = triggered s \<or>
   triggered (triggerChangeEvent s) = triggered s @
     [if selectionMode s = MULTIPLE
      then \<lparr>detail_oldSelection = Items (oldSelection s),
            detail_selection = Items (selectedItems s)\<rparr>
      else \<lparr>detail_oldSelection =
              (if length (oldSelection s) > 1 then Items (oldSelection s)
               else Scalar (firstOrNull (oldSelection s))),
            detail_selection = Scalar (firstOrNull (selectedItems s))\<rparr>]"
  by (simp add: triggerChangeEvent_def Let_def)

text \<open>
  Claim C5, as the code has it. A run of the validator triggers at most one change event.
  In mode \<open>multiple\<close> both fields of its detail are arrays: the recorded old selection and
  the selected items. In the modes \<open>single\<close> and \<open>none\<close> the field \<open>selection\<close> is the
  first selected item or null; the field \<open>oldSelection\<close> is the recorded old selection
  itself, an array, when that holds more than one item, and its first item or null
  otherwise.
\<close>

theorem change_event_payload:
  "triggered (validateSelection s item0) = triggered s \<or>
   triggered (validateSelection s item0) = triggered s @
     [if selectionMode s = MULTIPLE
      then \<lparr>detail_oldSelection = Items (oldSelection s),
            detail_selection = Items (selectedItems (validateSelection s item0))\<rparr>
      else \<lparr>detail_oldSelection =
              (if length (oldSelection s) > 1 then Items (oldSelection s)
               else Scalar (firstOrNull (oldSelection s))),
            detail_selection = Scalar (firstOrNull (selectedItems (validateSelection s item0)))\<rparr>]"
proof -
  define s1 where "s1 = (if selectionMode s = NONE then forEachNone s (selectedItems s)
         else if selectionMode s = SINGLE then
           (case (case item0 of Some i \<Rightarrow> Some i | None \<Rightarrow> lastOrUndefined (selectedItems s)) of
              None \<Rightarrow> s
            | Some item \<Rightarrow>
                if hasAttribute s item ''selected'' \<and> length (selectedItems s) > 1
                then (forEachSingle s item (selectedItems s))\<lparr>preventTriggeringEvents := False\<rparr>
                else s)
         else s)"
  have v: "validateSelection s item0 = triggerChangeEvent s1"
    by (simp add: validateSelection_def Let_def s1_def)
  have f: "oldSelection s1 = oldSelection s" "triggered s1 = triggered s"
    "selectionMode s1 = selectionMode s"
    by (simp_all add: s1_def forEachNone_fields forEachSingle_fields split: option.splits)
  from triggerChangeEvent_payload [of s1] show ?thesis
    unfolding v selectedItems_triggerChangeEvent f .
qed

theorem change_event_payload_witness:
  "triggered (validateSelection (setAttribute threeItems 1 ''selected'') (Some 1)) =
     [\<lparr>detail_oldSelection = Items [], detail_selection = Items [1]\<rparr>] \<and>
   triggered (validateSelection selectedInNone None) = triggered selectedInNone"
proof -
  have a: "triggered (setAttribute threeItems 1 ''selected'') = [] \<and>
      selectionMode (setAttribute threeItems 1 ''selected'') = MULTIPLE \<and>
      oldSelection (setAttribute threeItems 1 ''selected'') = [] \<and>
      triggered (validateSelection (setAttribute threeItems 1 ''selected'') (Some 1)) \<noteq> [] \<and>
      selectedItems (validateSelection (setAttribute threeItems 1 ''selected'') (Some 1)) = [1]"
    by (simp add: selection_eval threeItems_def)
  have b: "triggered (validateSelection selectedInNone None) = triggered selectedInNone"
    by (simp add: selection_eval selectedInNone_def)
  from change_event_payload [of "setAttribute threeItems 1 ''selected''" "Some 1"] a b
  show ?thesis by simp
qed

text \<open>
  The claim C5 as it was stated fails: with the items 1 and 2 selected and recorded as the
  old selection, the validator run in mode \<open>single\<close> triggers an event whose
  \<open>oldSelection\<close> is the array of both.
\<close>

theorem change_event_old_selection_counterexample:
  "selectionMode twoSelectedInSingle = SINGLE \<and>
   triggered twoSelectedInSingle = [] \<and>
   triggered (validateSelection twoSelectedInSingle None) =
     [\<lparr>detail_oldSelection = Items [1, 2], detail_selection = Scalar (Some 2)\<rparr>]"
  by (simp add: selection_eval twoSelectedInSingle_def)

text \<open>That state arises from the Masonry of three unselected items in mode \<open>multiple\<close> by
  selecting the items 1 and 2 and setting the mode to \<open>single\<close>; the third event of the
  run is the one above.\<close>

lemma change_event_old_selection_run:
  "triggered (selectionRun threeItems
       [SetSelected 1 True, SetSelected 2 True, SetSelectionMode SINGLE]) =
     [\<lparr>detail_oldSelection = Items [], detail_selection = Items [1]\<rparr>,
      \<lparr>detail_oldSelection = Items [1], detail_selection = Items [1, 2]\<rparr>,
      \<lparr>detail_oldSelection = Items [1, 2], detail_selection = Scalar (Some 2)\<rparr>]"
  by (simp add: selection_eval threeItems_def)

section \<open>Properties of the layout name and the scheduler\<close>

lemma signals_fixed: "scheduleLayout t = t \<Longrightarrow> signals n t = t"
  by (induction n) simp_all

lemma scheduleLayout_idem: "scheduleLayout (scheduleLayout s) = scheduleLayout s"
  by (simp add: scheduleLayout_def)

lemma signals_Suc: "signals (Suc n) s = scheduleLayout s"
  by (simp add: signals_fixed scheduleLayout_idem)

lemma scheduleLayout_idle:
  "\<not> forceDebounce s \<Longrightarrow> \<not> layoutScheduled s \<Longrightarrow>
     scheduleLayout s = s\<lparr>frameCallbacks := Suc (frameCallbacks s), layoutScheduled := True\<rparr>"
  by (simp add: scheduleLayout_def)

text \<open>
  Claim C4, as the code has it. From a scheduler that is idle (no layout scheduled, no
  callback waiting) and not in a forced debounce, \<open>N \<ge> 1\<close> calls of \<open>_scheduleLayout\<close>
  do what the first one does: they register one callback and set \<open>_layoutScheduled\<close>,
  every later call changes nothing, and no layout has run yet. When the frame fires,
  \<open>_doLayout\<close> is called exactly once, the flag is cleared and no callback is left. That
  call runs one layout pass when the host is visible and the active layout name is a
  registered one, and none otherwise. (An active layout name that the registry object
  only inherits is set aside.)
\<close>

theorem schedule_coalesces:
  assumes "0 < N" and "\<not> forceDebounce s" and "\<not> layoutScheduled s" and "frameCallbacks s = 0"
  shows "signals N s = scheduleLayout s \<and>
         frameCallbacks (signals N s) = 1 \<and> layoutScheduled (signals N s) \<and>
         scheduleLayout (signals N s) = signals N s \<and>
         doLayoutCalls (signals N s) = doLayoutCalls s \<and>
         layoutPasses (signals N s) = layoutPasses s \<and>
         (layoutGetter s \<in> set (layouts s) \<or> layoutGetter s \<notin> set objectPrototypeKeys \<longrightarrow>
            (\<exists>s'. animationFrame (signals N s) = Inr s' \<and>
               doLayoutCalls s' = Suc (doLayoutCalls s) \<and>
               layoutPasses s' =
                 (if offsetParent s \<and> layoutGetter s \<in> set (layouts s)
                  then Suc (layoutPasses s) else layoutPasses s) \<and>
               \<not> layoutScheduled s' \<and> frameCallbacks s' = 0))"
proof -
  from assms(1) obtain n where N: "N = Suc n" by (cases N) auto
  have sig: "signals N s = s\<lparr>layoutScheduled := True, frameCallbacks := Suc 0\<rparr>"
    unfolding N signals_Suc using scheduleLayout_idle [OF assms(2,3)] assms(4) by simp
  have fr: "animationFrame (signals N s) =
      (case doLayout (s\<lparr>layoutScheduled := True, frameCallbacks := 0\<rparr>) of
         Inl err \<Rightarrow> Inl err
       | Inr s' \<Rightarrow> Inr (s'\<lparr>layoutScheduled := False\<rparr>))"
    unfolding sig by (simp add: animationFrame_def frameCallback_def split: sum.splits)
  have a: "layoutGetter s \<in> set (layouts s) \<or> layoutGetter s \<notin> set objectPrototypeKeys \<longrightarrow>
            (\<exists>s'. animationFrame (signals N s) = Inr s' \<and>
               doLayoutCalls s' = Suc (doLayoutCalls s) \<and>
               layoutPasses s' =
                 (if offsetParent s \<and> layoutGetter s \<in> set (layouts s)
                  then Suc (layoutPasses s) else layoutPasses s) \<and>
               \<not> layoutScheduled s' \<and> frameCallbacks s' = 0)"
    unfolding fr using assms(2)
    by (auto simp: doLayout_def Let_def layoutGetter_def layoutEnumHas_def propertyKey_def)
  have b: "signals N s = scheduleLayout s \<and>
         frameCallbacks (signals N s) = 1 \<and> layoutScheduled (signals N s) \<and>
         scheduleLayout (signals N s) = signals N s \<and>
         doLayoutCalls (signals N s) = doLayoutCalls s \<and>
         layoutPasses (signals N s) = layoutPasses s"
    unfolding sig unfolding N signals_Suc using assms(2,3,4) by (simp add: scheduleLayout_def)
  from a b show ?thesis by blast
qed

theorem schedule_coalesces_witness:
  "(0::nat) < 3 \<and> \<not> forceDebounce visibleMasonry \<and> \<not> layoutScheduled visibleMasonry \<and>
   frameCallbacks visibleMasonry = 0 \<and> layoutGetter visibleMasonry \<in> set (layouts visibleMasonry) \<and>
   frameCallbacks (signals 3 visibleMasonry) = 1 \<and>
   \<not> isl (animationFrame (signals 3 visibleMasonry)) \<and>
   doLayoutCalls (projr (animationFrame (signals 3 visibleMasonry))) = 1 \<and>
   layoutPasses (projr (animationFrame (signals 3 visibleMasonry))) = 1"
proof -
  have h: "(0::nat) < 3" "\<not> forceDebounce visibleMasonry" "\<not> layoutScheduled visibleMasonry"
    "frameCallbacks visibleMasonry = 0"
    by (simp_all add: visibleMasonry_def)
  have v: "offsetParent visibleMasonry \<and>
      layoutGetter visibleMasonry \<in> set (layouts visibleMasonry) \<and>
      doLayoutCalls visibleMasonry = 0 \<and> layoutPasses visibleMasonry = 0"
    by (simp add: visibleMasonry_def layoutGetter_def)
  from schedule_coalesces [OF h] v
  have r: "frameCallbacks (signals 3 visibleMasonry) = 1 \<and>
      (\<exists>s'. animationFrame (signals 3 visibleMasonry) = Inr s' \<and>
         doLayoutCalls s' = Suc 0 \<and> layoutPasses s' = Suc 0)"
    by auto
  with h v show ?thesis by auto
qed

text \<open>
  The claim C4 as it was stated fails for a hidden host: one call of \<open>_scheduleLayout\<close>
  registers its callback, the frame fires, and \<open>_doLayout\<close> returns at its guard without
  a layout pass.
\<close>

theorem schedule_hidden_counterexample:
  "\<not> forceDebounce hiddenMasonry \<and> \<not> layoutScheduled hiddenMasonry \<and>
   frameCallbacks (signals 1 hiddenMasonry) = 1 \<and>
   \<not> isl (animationFrame (signals 1 hiddenMasonry)) \<and>
   doLayoutCalls (projr (animationFrame (signals 1 hiddenMasonry))) =
     Suc (doLayoutCalls hiddenMasonry) \<and>
   layoutPasses (projr (animationFrame (signals 1 hiddenMasonry))) = layoutPasses hiddenMasonry"
  by (simp add: hiddenMasonry_def scheduleLayout_def animationFrame_def frameCallback_def
      doLayout_def Let_def)

text \<open>
  Claim C7, as the code has it. The setter of \<open>layout\<close> is a total function: it never
  throws. For a name that is not empty and that the registry does not hold (the property
  names that the registry object inherits set aside), it leaves the active layout name,
  the layout instance and the schedule as they were, and it logs the name unless the name
  is the active one already. For a registered name the active layout name becomes that
  name and nothing is logged. The empty string stands for the first registered layout,
  which becomes the active one, and nothing is logged.
\<close>

theorem layout_setter_names:
  "(value \<noteq> [] \<and> value \<notin> set (layouts s) \<and> value \<notin> set objectPrototypeKeys \<longrightarrow>
      setLayout s value =
        (if Some value = layoutName s then s
         else s\<lparr>logged := logged s @ [''Coral.Masonry: Unknown layout: '' @ value]\<rparr>) \<and>
      layoutName (setLayout s value) = layoutName s \<and>
      layoutInstance (setLayout s value) = layoutInstance s \<and>
      layoutScheduled (setLayout s value) = layoutScheduled s) \<and>
   (value \<noteq> [] \<and> value \<in> set (layouts s) \<longrightarrow>
      setLayout s value =
        (if Some value = layoutName s then s
         else scheduleLayout (s\<lparr>layoutName := Some value\<rparr>)) \<and>
      layoutName (setLayout s value) = Some value \<and>
      logged (setLayout s value) = logged s) \<and>
   (value = [] \<and> layouts s \<noteq> [] \<longrightarrow>
      layoutName (setLayout s value) = Some (hd (layouts s)) \<and>
      logged (setLayout s value) = logged s)"
  by (cases "layouts s")
     (auto simp: setLayout_def Let_def layoutEnumHas_def propertyKey_def scheduleLayout_def)

theorem layout_setter_names_witness:
  "''zigzag'' \<noteq> [] \<and> ''zigzag'' \<notin> set (layouts visibleMasonry) \<and>
   ''zigzag'' \<notin> set objectPrototypeKeys \<and>
   layoutName (setLayout visibleMasonry ''zigzag'') = Some ''variable'' \<and>
   logged (setLayout visibleMasonry ''zigzag'') = [''Coral.Masonry: Unknown layout: zigzag''] \<and>
   ''fixed-centered'' \<noteq> [] \<and> ''fixed-centered'' \<in> set (layouts visibleMasonry) \<and>
   layoutName (setLayout visibleMasonry ''fixed-centered'') = Some ''fixed-centered'' \<and>
   logged (setLayout visibleMasonry ''fixed-centered'') = []"
proof -
  have z: "''zigzag'' \<noteq> [] \<and> ''zigzag'' \<notin> set (layouts visibleMasonry) \<and>
      ''zigzag'' \<notin> set objectPrototypeKeys"
    by (simp add: visibleMasonry_def objectPrototypeKeys_def)
  have f: "''fixed-centered'' \<noteq> [] \<and> ''fixed-centered'' \<in> set (layouts visibleMasonry)"
    by (simp add: visibleMasonry_def)
  have l: "layoutName visibleMasonry = Some ''variable'' \<and> logged visibleMasonry = []"
    by (simp add: visibleMasonry_def)
  have g: "logged (setLayout visibleMasonry ''zigzag'') =
      [''Coral.Masonry: Unknown layout: zigzag'']"
    by (simp add: setLayout_def layoutEnumHas_def propertyKey_def objectPrototypeKeys_def
        visibleMasonry_def Let_def)
  from layout_setter_names [of "''zigzag''" visibleMasonry] z
  have 1: "layoutName (setLayout visibleMasonry ''zigzag'') = layoutName visibleMasonry"
    by blast
  from layout_setter_names [of "''fixed-centered''" visibleMasonry] f
  have 2: "layoutName (setLayout visibleMasonry ''fixed-centered'') = Some ''fixed-centered'' \<and>
      logged (setLayout visibleMasonry ''fixed-centered'') = logged visibleMasonry"
    by blast
  from z f l g 1 2 show ?thesis by simp
qed

text \<open>
  The claim C7 as it was stated fails for the empty string, which is not a registered
  name: the setter neither logs it nor keeps the active layout, it makes the first
  registered layout the active one.
\<close>

theorem layout_setter_empty_counterexample:
  "[] \<notin> set (layouts visibleMasonry) \<and>
   layoutName visibleMasonry = Some ''variable'' \<and>
   layoutName (setLayout visibleMasonry []) = Some ''fixed-centered'' \<and>
   logged (setLayout visibleMasonry []) = []"
  by (simp add: visibleMasonry_def setLayout_def layoutEnumHas_def propertyKey_def
      scheduleLayout_def Let_def)

section \<open>Properties of the drag handlers\<close>

subsection \<open>The comparison of two distances\<close>

lemma double_le_less:
  "x \<noteq> NaN \<Longrightarrow> y \<noteq> NaN \<Longrightarrow> (\<not> double_le x y) = double_less y x"
  by (cases x; cases y) auto

lemma double_le_NaN: "\<not> double_le NaN y" "\<not> double_le x NaN"
  by (cases x, simp_all)

lemma sqrt_sixteenth: "sqrt (1 / 16) = 1 / 4"
  by (rule real_sqrt_unique) (simp_all add: power2_eq_square)

subsection \<open>Where the placeholder goes\<close>

lemma itemBelowAt_child: "itemBelowAt s pos = Some b \<Longrightarrow> b \<in> set (children s)"
  by (auto simp: itemBelowAt_def find_Some_iff)

lemma two_children_cases:
  assumes "p \<in> set cs" "b \<in> set cs" "b \<noteq> p"
  shows "(\<exists>xs ys zs. cs = xs @ b # ys @ p # zs) \<or> (\<exists>xs ys zs. cs = xs @ p # ys @ b # zs)"
proof -
  from assms(1) obtain xs zs where cs: "cs = xs @ p # zs" by (meson split_list)
  with assms(2,3) consider "b \<in> set xs" | "b \<in> set zs" by auto
  then show ?thesis
  proof cases
    case 1
    then obtain xs1 xs2 where "xs = xs1 @ b # xs2" by (meson split_list)
    with cs have "cs = xs1 @ b # xs2 @ p # zs" by simp
    then show ?thesis by blast
  next
    case 2
    then obtain zs1 zs2 where "zs = zs1 @ b # zs2" by (meson split_list)
    with cs have "cs = xs @ p # zs1 @ b # zs2" by simp
    then show ?thesis by blast
  qed
qed

text \<open>A placeholder that stands after the item found goes right before it; one that
  stands before the item found goes right after it.\<close>

lemma movePlaceholder_before:
  assumes "children s = xs @ b # ys @ p # zs" and "distinct (children s)"
  shows "movePlaceholder s p b = xs @ p # b # ys @ zs"
proof -
  from assms have d: "p \<notin> set xs" "p \<notin> set ys" "p \<notin> set zs" "b \<notin> set xs" "b \<noteq> p"
    "b \<notin> set ys" "b \<notin> set zs"
    by auto
  have pre: "precedes s b p"
    using d assms(1) by (simp add: precedes_def takeWhile_append)
  have rest: "removeAll p (xs @ b # ys @ p # zs) = xs @ b # ys @ zs"
    using d by simp
  have tw: "takeWhile (\<lambda>x. x \<noteq> b) (xs @ b # ys @ zs) = xs"
    using d by (simp add: takeWhile_append)
  have dw: "dropWhile (\<lambda>x. x \<noteq> b) (xs @ b # ys @ zs) = b # ys @ zs"
    using d by (simp add: dropWhile_append)
  show ?thesis
    unfolding movePlaceholder_def insertBefore_def Let_def assms(1) rest using pre tw dw by simp
qed

lemma takeWhile_neq_notin: "x \<notin> set xs \<Longrightarrow> takeWhile (\<lambda>y. y \<noteq> x) xs = xs"
  by (induction xs) auto

lemma dropWhile_neq_notin: "x \<notin> set xs \<Longrightarrow> dropWhile (\<lambda>y. y \<noteq> x) xs = []"
  by (induction xs) auto

lemma movePlaceholder_after:
  assumes "children s = xs @ p # ys @ b # zs" and "distinct (children s)"
  shows "movePlaceholder s p b = xs @ ys @ b # p # zs"
proof -
  let ?cs = "xs @ p # ys @ b # zs"
  from assms have d: "p \<notin> set xs" "p \<notin> set ys" "p \<notin> set zs" "b \<notin> set xs" "b \<noteq> p"
    "b \<notin> set ys" "b \<notin> set zs" "distinct zs" "set xs \<inter> set zs = {}" "set ys \<inter> set zs = {}"
    by auto
  have pre: "\<not> precedes s b p"
    using d assms(1) by (simp add: precedes_def takeWhile_append)
  have rest: "removeAll p ?cs = xs @ ys @ b # zs"
    using d by simp
  have dwb: "dropWhile (\<lambda>x. x \<noteq> b) ?cs = b # zs"
    using d by (simp add: dropWhile_append)
  show ?thesis
  proof (cases zs)
    case Nil
    then have "nextElementSibling ?cs b = None"
      using dwb by (simp add: nextElementSibling_def nextElementSiblings_def)
    then show ?thesis
      unfolding movePlaceholder_def insertBefore_def Let_def assms(1) rest using pre Nil by simp
  next
    case (Cons r zs')
    then have n: "nextElementSibling ?cs b = Some r"
      using dwb by (simp add: nextElementSibling_def nextElementSiblings_def)
    from d Cons have r: "r \<notin> set xs" "r \<notin> set ys" "r \<noteq> b" "r \<notin> set zs'" by auto
    have tw: "takeWhile (\<lambda>x. x \<noteq> r) (xs @ ys @ b # zs) = xs @ ys @ [b]"
      using r Cons by (simp add: takeWhile_append takeWhile_neq_notin)
    have dw: "dropWhile (\<lambda>x. x \<noteq> r) (xs @ ys @ b # zs) = zs"
      using r Cons by (simp add: dropWhile_append dropWhile_neq_notin)
    show ?thesis
      unfolding movePlaceholder_def insertBefore_def Let_def assms(1) rest n using pre tw dw by simp
  qed
qed

lemma movePlaceholder_moves:
  assumes "distinct (children s)" "p \<in> set (children s)" "b \<in> set (children s)" "b \<noteq> p"
  shows "movePlaceholder s p b \<noteq> children s"
proof -
  from two_children_cases [OF assms(2,3,4)]
  consider xs ys zs where "children s = xs @ b # ys @ p # zs"
    | xs ys zs where "children s = xs @ p # ys @ b # zs" by blast
  then show ?thesis
  proof cases
    case 1
    with assms(1) have "movePlaceholder s p b = xs @ p # b # ys @ zs"
      using movePlaceholder_before by simp
    with 1 assms(4) show ?thesis by auto
  next
    case 2
    with assms(1) have m: "movePlaceholder s p b = xs @ ys @ b # p # zs"
      using movePlaceholder_after by simp
    show ?thesis
    proof
      assume a: "movePlaceholder s p b = children s"
      have "xs @ ys @ b # p # zs = children s" using a m by (simp only:)
      also have "children s = xs @ p # ys @ b # zs" by (fact 2)
      finally have eq: "ys @ b # p # zs = p # ys @ b # zs" by (simp only: same_append_eq)
      from 2 assms(1) have nin: "p \<notin> set ys" by auto
      show False
      proof (cases ys)
        case Nil
        with eq assms(4) show False by simp
      next
        case (Cons y ys')
        with eq have "y = p" by simp
        with Cons nin show False by simp
      qed
    qed
  qed
qed

lemma set_insertBefore:
  "set (insertBefore cs n reference) = insert n (set cs)"
proof (cases reference)
  case None
  then show ?thesis by (auto simp: insertBefore_def Let_def)
next
  case (Some r)
  have "set (takeWhile (\<lambda>x. x \<noteq> r) (removeAll n cs)) \<union>
        set (dropWhile (\<lambda>x. x \<noteq> r) (removeAll n cs)) = set (removeAll n cs)"
    by (metis set_append takeWhile_dropWhile_id)
  with Some show ?thesis by (auto simp: insertBefore_def Let_def)
qed

lemma set_movePlaceholder:
  "set (movePlaceholder s placeholder itemBelow) = insert placeholder (set (children s))"
  by (simp add: movePlaceholder_def set_insertBefore)

subsection \<open>The hysteresis of a drag move\<close>

text \<open>
  Claim C1, as the code has it. During a drag move of an item with a placeholder and a
  recorded previous position, the handler looks for a new place of the placeholder if and
  only if the comparison \<open><=\<close> of the weighted distance of the new position with that of
  the previous position, both as the engine computed them, is false. For two distances
  that are numbers this is to say that the new distance is strictly greater; when it is
  equal or smaller the children keep their order. When the handler looks for a new place,
  the placeholder moves next to the child that the hit test finds for the new position,
  unless there is none or it is the placeholder itself. So, when the placeholder stands
  among the children and no child stands there twice, the order changes if and only if the
  comparison is false and the hit test finds a child other than the placeholder. In every
  case the new position is recorded as the previous one.
\<close>

theorem drag_move_hysteresis:
  assumes "dropPlaceholder s (target e) = Some placeholder"
    and "target e = matchedTarget e"
    and "prevDragPos s (target e) = Some prevPos"
  shows "children (onItemDragMove s e) =
           (if double_le (placeholderDistance s placeholder (relativePosition s (target e)))
                 (placeholderDistance s placeholder prevPos)
            then children s
            else (case itemBelowAt s (relativePosition s (target e)) of
                    None \<Rightarrow> children s
                  | Some itemBelow \<Rightarrow>
                      if itemBelow \<noteq> placeholder
                      then movePlaceholder s placeholder itemBelow
                      else children s)) \<and>
         prevDragPos (onItemDragMove s e) (target e) = Some (relativePosition s (target e)) \<and>
         (placeholderDistance s placeholder (relativePosition s (target e)) \<noteq> NaN \<and>
          placeholderDistance s placeholder prevPos \<noteq> NaN \<longrightarrow>
            (\<not> double_le (placeholderDistance s placeholder (relativePosition s (target e)))
                 (placeholderDistance s placeholder prevPos)) =
            double_less (placeholderDistance s placeholder prevPos)
              (placeholderDistance s placeholder (relativePosition s (target e)))) \<and>
         (distinct (children s) \<and> placeholder \<in> set (children s) \<longrightarrow>
            (children (onItemDragMove s e) \<noteq> children s) =
            (\<not> double_le (placeholderDistance s placeholder (relativePosition s (target e)))
                 (placeholderDistance s placeholder prevPos) \<and>
             (\<exists>b. itemBelowAt s (relativePosition s (target e)) = Some b \<and> b \<noteq> placeholder)))"
proof -
  let ?d1 = "placeholderDistance s placeholder (relativePosition s (target e))"
  let ?d0 = "placeholderDistance s placeholder prevPos"
  let ?hit = "itemBelowAt s (relativePosition s (target e))"
  have c: "children (onItemDragMove s e) =
           (if double_le ?d1 ?d0 then children s
            else (case ?hit of
                    None \<Rightarrow> children s
                  | Some itemBelow \<Rightarrow>
                      if itemBelow \<noteq> placeholder
                      then movePlaceholder s placeholder itemBelow
                      else children s))"
    using assms
    by (simp add: onItemDragMove_def Let_def isApproachingPlaceholder_def split: option.splits)
  have p: "prevDragPos (onItemDragMove s e) (target e) = Some (relativePosition s (target e))"
    using assms by (simp add: onItemDragMove_def Let_def split: option.splits)
  have l: "?d1 \<noteq> NaN \<and> ?d0 \<noteq> NaN \<longrightarrow> (\<not> double_le ?d1 ?d0) = double_less ?d0 ?d1"
    by (simp add: double_le_less)
  have m: "distinct (children s) \<and> placeholder \<in> set (children s) \<longrightarrow>
            (children (onItemDragMove s e) \<noteq> children s) =
            (\<not> double_le ?d1 ?d0 \<and> (\<exists>b. ?hit = Some b \<and> b \<noteq> placeholder))"
  proof (intro impI)
    assume h: "distinct (children s) \<and> placeholder \<in> set (children s)"
    show "(children (onItemDragMove s e) \<noteq> children s) =
            (\<not> double_le ?d1 ?d0 \<and> (\<exists>b. ?hit = Some b \<and> b \<noteq> placeholder))"
    proof (cases ?hit)
      case None
      then show ?thesis unfolding c by simp
    next
      case (Some b)
      then have "b \<in> set (children s)" by (rule itemBelowAt_child)
      with h have "b \<noteq> placeholder \<Longrightarrow> movePlaceholder s placeholder b \<noteq> children s"
        by (simp add: movePlaceholder_moves)
      with Some show ?thesis unfolding c by auto
    qed
  qed
  from c p l m show ?thesis by blast
qed

theorem drag_move_hysteresis_witness:
  "dropPlaceholder leavingDrag (target dragOfItem2) = Some 1 \<and>
   target dragOfItem2 = matchedTarget dragOfItem2 \<and>
   prevDragPos leavingDrag (target dragOfItem2) =
     Some \<lparr>pos_left = Finite 64, pos_top = Finite 64\<rparr> \<and>
   placeholderDistance leavingDrag 1 \<lparr>pos_left = Finite 64, pos_top = Finite 64\<rparr> = Finite 0 \<and>
   placeholderDistance leavingDrag 1 (relativePosition leavingDrag (target dragOfItem2)) =
     Finite (1 / 4) \<and>
   double_less (Finite 0) (Finite (1 / 4)) \<and>
   itemBelowAt leavingDrag (relativePosition leavingDrag (target dragOfItem2)) = Some 3 \<and>
   children leavingDrag = [1, 2, 3] \<and>
   children (onItemDragMove leavingDrag dragOfItem2) = [2, 3, 1]"
proof -
  have h: "dropPlaceholder leavingDrag (target dragOfItem2) = Some 1"
    "target dragOfItem2 = matchedTarget dragOfItem2"
    "prevDragPos leavingDrag (target dragOfItem2) =
       Some \<lparr>pos_left = Finite 64, pos_top = Finite 64\<rparr>"
    by (simp_all add: leavingDrag_def levelDrag_def dragOfItem2_def)
  have d0: "placeholderDistance leavingDrag 1 \<lparr>pos_left = Finite 64, pos_top = Finite 64\<rparr> =
      Finite 0"
    by (simp add: drag_eval)
  have d1: "placeholderDistance leavingDrag 1 (relativePosition leavingDrag (target dragOfItem2)) =
      Finite (1 / 4)"
    by (simp add: drag_eval sqrt_sixteenth)
  have b: "itemBelowAt leavingDrag (relativePosition leavingDrag (target dragOfItem2)) = Some 3"
    by (simp add: drag_eval)
  have c: "children leavingDrag = [1, 2, 3]" by (simp add: leavingDrag_def levelDrag_def)
  have m: "movePlaceholder leavingDrag 1 3 = [2, 3, 1]" by (simp add: drag_eval)
  from drag_move_hysteresis [OF h]
  have "children (onItemDragMove leavingDrag dragOfItem2) =
           (if double_le (placeholderDistance leavingDrag 1
                            (relativePosition leavingDrag (target dragOfItem2)))
                 (placeholderDistance leavingDrag 1 \<lparr>pos_left = Finite 64, pos_top = Finite 64\<rparr>)
            then children leavingDrag
            else (case itemBelowAt leavingDrag (relativePosition leavingDrag (target dragOfItem2)) of
                    None \<Rightarrow> children leavingDrag
                  | Some itemBelow \<Rightarrow>
                      if itemBelow \<noteq> 1
                      then movePlaceholder leavingDrag 1 itemBelow
                      else children leavingDrag))"
    by blast
  then have "children (onItemDragMove leavingDrag dragOfItem2) = [2, 3, 1]"
    unfolding d0 d1 b m [symmetric] by simp
  with h d0 d1 b c show ?thesis by simp
qed

text \<open>
  The claim C1 as it was stated fails when the two distances are equal. The new position
  (32, 64) and the previous position (96, 64) both have the weighted distance 1/4 from
  the centre (64, 64) of the placeholder, so the new distance is not smaller than the
  previous one; the item 3 is below the pointer and a relocation next to it would change
  the order; and yet the placeholder stays where it is.
\<close>

theorem drag_move_level_counterexample:
  "dropPlaceholder levelDrag (target dragOfItem2) = Some 1 \<and>
   target dragOfItem2 = matchedTarget dragOfItem2 \<and>
   prevDragPos levelDrag (target dragOfItem2) =
     Some \<lparr>pos_left = Finite 96, pos_top = Finite 64\<rparr> \<and>
   placeholderDistance levelDrag 1 \<lparr>pos_left = Finite 96, pos_top = Finite 64\<rparr> =
     Finite (1 / 4) \<and>
   placeholderDistance levelDrag 1 (relativePosition levelDrag (target dragOfItem2)) =
     Finite (1 / 4) \<and>
   \<not> double_less (Finite (1 / 4)) (Finite (1 / 4)) \<and>
   itemBelowAt levelDrag (relativePosition levelDrag (target dragOfItem2)) = Some 3 \<and>
   movePlaceholder levelDrag 1 3 \<noteq> children levelDrag \<and>
   children (onItemDragMove levelDrag dragOfItem2) = children levelDrag"
  by (simp add: drag_eval sqrt_sixteenth)

subsection \<open>The end of a drag\<close>

text \<open>A drag start that returns has recorded a placeholder that is a child of the host;
  one that throws has recorded a placeholder that is not. A drag move keeps every
  placeholder that is a child of the host among the children.\<close>

lemma onItemDragStart_returns:
  assumes "onItemDragStart s e placeholder = Returns s'" and "target e = matchedTarget e"
  shows "target e \<in> set (children s) \<and> dropPlaceholder s' (target e) = Some placeholder \<and>
         placeholder \<in> set (children s')"
  using assms
  by (auto simp: onItemDragStart_def Let_def set_insertBefore setAttribute_def
      split: if_splits)

lemma onItemDragStart_throws:
  assumes "target e = matchedTarget e" and "target e \<notin> set (children s)"
  shows "thrown (onItemDragStart s e placeholder) = Some NotFoundError \<and>
         children (stateOf (onItemDragStart s e placeholder)) = children s \<and>
         dropPlaceholder (stateOf (onItemDragStart s e placeholder)) (target e) =
           Some placeholder \<and>
         oldBefore (stateOf (onItemDragStart s e placeholder)) (target e) =
           getPreviousItem s (target e)"
  using assms by (simp add: onItemDragStart_def Let_def setAttribute_def)

lemma onItemDragMove_keeps_placeholders:
  assumes "dropPlaceholder s item = Some p" and "p \<in> set (children s)"
  shows "dropPlaceholder (onItemDragMove s e) item = Some p \<and>
         p \<in> set (children (onItemDragMove s e))"
  using assms
  by (auto simp: onItemDragMove_def Let_def set_movePlaceholder split: option.splits)

lemma clearSession_fields:
  "oldBefore (clearSession s item) item = None"
  "dropPlaceholder (clearSession s item) item = None"
  "prevDragPos (clearSession s item) item = None"
  "children (clearSession s item) = children s"
  "orderEvents (clearSession s item) = orderEvents s"
  by (simp_all add: clearSession_def)

text \<open>\<open>_onItemDragEnd\<close> throws exactly when the item of the event has a placeholder
  that is not a child of the host. When it returns, the three properties of the item are
  null, and without a placeholder that is all it has done. When it throws, they are what
  they were, and \<open>_dropping\<close> is left set.\<close>

lemma onItemDragEnd_thrown:
  "thrown (onItemDragEnd s e) =
     (if target e = matchedTarget e \<and>
         (\<exists>p. dropPlaceholder s (target e) = Some p \<and> p \<notin> set (children s))
      then Some NotFoundError else None)"
  by (auto simp: onItemDragEnd_def replaceChild_def Let_def split: option.splits)

lemma onItemDragEnd_returns:
  assumes "thrown (onItemDragEnd s e) = None"
  shows "oldBefore (stateOf (onItemDragEnd s e)) (target e) = None \<and>
         dropPlaceholder (stateOf (onItemDragEnd s e)) (target e) = None \<and>
         prevDragPos (stateOf (onItemDragEnd s e)) (target e) = None \<and>
         (dropPlaceholder s (target e) = None \<longrightarrow>
            onItemDragEnd s e = Returns (clearSession s (target e)) \<and>
            children (stateOf (onItemDragEnd s e)) = children s \<and>
            orderEvents (stateOf (onItemDragEnd s e)) = orderEvents s)"
  using assms
  by (auto simp: onItemDragEnd_def replaceChild_def Let_def clearSession_fields
      split: option.splits if_splits)

lemma onItemDragEnd_throws:
  assumes "thrown (onItemDragEnd s e) = Some err"
  shows "onItemDragEnd s e =
           Throws NotFoundError (s\<lparr>dropping := (dropping s)(target e := True)\<rparr>)"
  using assms
  by (auto simp: onItemDragEnd_def replaceChild_def Let_def split: option.splits if_splits)

text \<open>
  Claim C8. The claim has every drag end clear the old neighbour, the placeholder and the
  previous position of the item. The code does not do so for the drag end of the item 3
  whose placeholder 1 is not among the children of the host: \<open>replaceChild\<close> throws a
  \<open>NotFoundError\<close>, and the handler is left with the three properties of the item as they
  were and \<open>_dropping\<close> set. (The other half of the claim holds: without a placeholder
  the handler clears the three properties and does nothing else.)
\<close>

theorem drag_end_throws_uncleared:
  "dropPlaceholder orphanDrag (target dragOfItem3) = Some 1 \<and>
   target dragOfItem3 = matchedTarget dragOfItem3 \<and>
   children orphanDrag = [2, 3] \<and>
   thrown (onItemDragEnd orphanDrag dragOfItem3) = Some NotFoundError \<and>
   oldBefore (stateOf (onItemDragEnd orphanDrag dragOfItem3)) 3 = Some 2 \<and>
   dropPlaceholder (stateOf (onItemDragEnd orphanDrag dragOfItem3)) 3 = Some 1 \<and>
   prevDragPos (stateOf (onItemDragEnd orphanDrag dragOfItem3)) 3 =
     Some \<lparr>pos_left = Finite 96, pos_top = Finite 64\<rparr> \<and>
   dropping (stateOf (onItemDragEnd orphanDrag dragOfItem3)) 3 \<and>
   children (stateOf (onItemDragEnd orphanDrag dragOfItem3)) = [2, 3] \<and>
   orderEvents (stateOf (onItemDragEnd orphanDrag dragOfItem3)) = []"
  by (simp add: onItemDragEnd_def replaceChild_def Let_def orphanDrag_def levelDrag_def
      dragOfItem3_def)

text \<open>
  The handlers themselves lead to such a state. A drag start of the item 4, a masonry
  item that is not a child of the host, records the new placeholder 1 and then throws at
  \<open>insertBefore\<close>; the drag end of the item throws in turn and leaves the placeholder
  recorded.
\<close>

lemma drag_start_then_end_uncleared:
  "thrown (onItemDragStart idleDrag dragOfItem4 1) = Some NotFoundError \<and>
   children (stateOf (onItemDragStart idleDrag dragOfItem4 1)) = [2, 3] \<and>
   dropPlaceholder (stateOf (onItemDragStart idleDrag dragOfItem4 1)) 4 = Some 1 \<and>
   thrown (onItemDragEnd (stateOf (onItemDragStart idleDrag dragOfItem4 1)) dragOfItem4) =
     Some NotFoundError \<and>
   dropPlaceholder
     (stateOf (onItemDragEnd (stateOf (onItemDragStart idleDrag dragOfItem4 1)) dragOfItem4)) 4 =
     Some 1"
  by (simp add: onItemDragStart_def onItemDragEnd_def replaceChild_def Let_def
      setAttribute_def idleDrag_def levelDrag_def dragOfItem4_def)

end
